theory Spec2Isabelle
  imports Complex_Main
begin

section \<open>Data model\<close>

text \<open>
  The development embeds \<^verbatim>\<open>nengo/utils/function_space.py\<close>. Python floats are read as
  exact reals: \<^verbatim>\<open>+\<close>, \<^verbatim>\<open>*\<close>, \<^verbatim>\<open>/\<close>, \<^verbatim>\<open>**\<close> and \<^verbatim>\<open>np.sqrt\<close> are the real operations, so
  rounding, overflow and underflow are outside the model, except in \<open>arange_rounded\<close> and
  \<open>uniform_cube_rounded\<close>, where the rounding of the tick arithmetic is a parameter. Every
  exception the code can raise is a value of \<open>error\<close>; a computation that may raise returns
  \<open>error + 'a\<close>.
\<close>

datatype error = ZeroDivisionError | ValueError | IndexError | LinAlgError | Raised string

text \<open>
  A two-dimensional \<^verbatim>\<open>ndarray\<close>: its shape \<open>(nrows, ncols)\<close> and its rows. The shape is
  kept beside the rows because numpy keeps it also when one of the two is zero.
\<close>

record mat =
  nrows :: nat
  ncols :: nat
  rows :: "real list list"

text \<open>An n-dimensional \<^verbatim>\<open>ndarray\<close>: its shape and its elements in C (row-major) order.\<close>

record ndarray =
  shape :: "nat list"
  flat :: "real list"

text \<open>An argument that numpy accepts with one or with two dimensions.\<close>

datatype array12 = Vec "real list" | Mat mat

section \<open>The numpy operations the module calls\<close>

text \<open>
  \<^verbatim>\<open>np.arange(start, stop, step)\<close> in exact arithmetic: \<open>\<lceil>(stop - start) / step\<rceil>\<close> values
  (none when that is not positive), the i-th being \<open>start + i * step\<close>. A zero step raises.
\<close>

definition arange :: "real \<Rightarrow> real \<Rightarrow> real \<Rightarrow> error + real list" where
  "arange start stop step =
     (if step = 0 then Inl ZeroDivisionError
      else Inr (map (\<lambda>i. start + real i * step) [0..<nat \<lceil>(stop - start) / step\<rceil>]))"

text \<open>
  The same function with the floating-point arithmetic made explicit: the result of every
  arithmetic operation passes through a rounding function \<open>fl\<close> (for Python floats, rounding
  to the nearest double). \<^verbatim>\<open>np.arange\<close> takes the length from the rounded quotient, stores
  \<open>start\<close> and \<open>start + step\<close>, and fills the other positions with \<open>start + i * delta\<close>, where
  \<open>delta\<close> is the difference of the first two stored values. With the identity for \<open>fl\<close> this
  is \<open>arange\<close>.
\<close>

definition arange_rounded :: "(real \<Rightarrow> real) \<Rightarrow> real \<Rightarrow> real \<Rightarrow> real \<Rightarrow> error + real list" where
  "arange_rounded fl start stop step =
     (if step = 0 then Inl ZeroDivisionError
      else
        (let next = fl (start + step);
             delta = fl (next - start)
         in Inr (map (\<lambda>i. if i = 0 then start
                          else if i = 1 then next
                          else fl (start + fl (real i * delta)))
                     [0..<nat \<lceil>fl (fl (stop - start) / step)\<rceil>])))"

text \<open>\<^verbatim>\<open>a.reshape(a.shape[0], 1)\<close> of a one-dimensional array: a column vector.\<close>

definition reshape_column :: "real list \<Rightarrow> mat" where
  "reshape_column a = \<lparr>nrows = length a, ncols = 1, rows = map (\<lambda>x. [x]) a\<rparr>"

text \<open>
  The multi-index, in C order, of the flat position \<open>t\<close> of an array of the given shape.
\<close>

fun unravel_index :: "nat list \<Rightarrow> nat \<Rightarrow> nat list" where
  "unravel_index [] t = []"
| "unravel_index (s # ss) t = (t div prod_list ss) # unravel_index ss (t mod prod_list ss)"

text \<open>
  \<^verbatim>\<open>np.meshgrid(*xi)\<close> with its default \<^verbatim>\<open>indexing='xy'\<close>: one array per input, all of the
  same shape. With more than one input the first two axes are exchanged: the shape is
  \<open>(N\<^sub>1, N\<^sub>0, N\<^sub>2, ...)\<close> for inputs of lengths \<open>N\<^sub>0, N\<^sub>1, N\<^sub>2, ...\<close>, input 0 varies along
  axis 1, input 1 along axis 0, and input \<open>a \<ge> 2\<close> along axis \<open>a\<close>.
\<close>

definition mesh_axis :: "nat \<Rightarrow> nat \<Rightarrow> nat" where
  "mesh_axis ndim a = (if ndim > 1 \<and> a = 0 then 1 else if ndim > 1 \<and> a = 1 then 0 else a)"

definition mesh_shape :: "real list list \<Rightarrow> nat list" where
  "mesh_shape xi = map (\<lambda>b. length (xi ! mesh_axis (length xi) b)) [0..<length xi]"

definition meshgrid :: "real list list \<Rightarrow> ndarray list" where
  "meshgrid xi =
     map (\<lambda>a. \<lparr>shape = mesh_shape xi,
               flat = map (\<lambda>t. (xi ! a) ! (unravel_index (mesh_shape xi) t ! mesh_axis (length xi) a))
                          [0..<prod_list (mesh_shape xi)]\<rparr>)
         [0..<length xi]"

text \<open>\<^verbatim>\<open>np.ravel\<close>: the elements in C order.\<close>

definition ravel :: "ndarray \<Rightarrow> real list" where
  "ravel a = flat a"

text \<open>
  \<^verbatim>\<open>np.vstack\<close> of one-dimensional arrays: each array is one row of the result. No array,
  or arrays of different lengths, raise \<^verbatim>\<open>ValueError\<close>.
\<close>

definition vstack :: "real list list \<Rightarrow> error + mat" where
  "vstack arrs =
     (case arrs of
        [] \<Rightarrow> Inl ValueError
      | a # _ \<Rightarrow>
          if list_all (\<lambda>b. length b = length a) arrs
          then Inr \<lparr>nrows = length arrs, ncols = length a, rows = arrs\<rparr>
          else Inl ValueError)"

section \<open>generate_functions\<close>

text \<open>
  A distribution is known by its \<^verbatim>\<open>sample(n)\<close> alone. Sampling may draw on hidden state
  (a random generator, a counter), so it takes and returns a state \<open>'s\<close>, and it may raise.
\<close>

type_synonym ('p, 's) dist = "nat \<Rightarrow> 's \<Rightarrow> (error + 'p list) \<times> 's"

text \<open>
  \<^verbatim>\<open>[arg_dist.sample(n) for arg_dist in arg_dists]\<close>: left to right, stopping at the first
  exception.
\<close>

fun sample_all :: "('p, 's) dist list \<Rightarrow> nat \<Rightarrow> 's \<Rightarrow> (error + 'p list list) \<times> 's" where
  "sample_all [] n s = (Inr [], s)"
| "sample_all (arg_dist # rest) n s =
     (case arg_dist n s of
        (Inl e, s') \<Rightarrow> (Inl e, s')
      | (Inr arg_sample, s') \<Rightarrow>
          (case sample_all rest n s' of
             (Inl e, s'') \<Rightarrow> (Inl e, s'')
           | (Inr arg_samples, s'') \<Rightarrow> (Inr (arg_sample # arg_samples), s'')))"

text \<open>
  The inner loop of \<^verbatim>\<open>func\<close>: \<^verbatim>\<open>args.append(arg_sample[i])\<close> for each sample in turn. The
  index \<open>i\<close> comes from \<^verbatim>\<open>range(n)\<close> and is never negative; past the end of a sample the
  subscript raises \<^verbatim>\<open>IndexError\<close>.
\<close>

fun collect_args :: "'p list list \<Rightarrow> nat \<Rightarrow> error + 'p list" where
  "collect_args [] i = Inr []"
| "collect_args (arg_sample # rest) i =
     (if i < length arg_sample
      then (case collect_args rest i of
              Inl e \<Rightarrow> Inl e
            | Inr args \<Rightarrow> Inr (arg_sample ! i # args))
      else Inl IndexError)"

text \<open>
  The closure \<^verbatim>\<open>func(point, i=i)\<close> called with a point only: the default argument holds
  the value \<open>i\<close> had when the closure was made. The base function receives the point and
  then the collected parameters (\<^verbatim>\<open>function(*args)\<close>) and may raise.
\<close>

definition func :: "('pt \<Rightarrow> 'p list \<Rightarrow> error + 'r) \<Rightarrow> 'p list list \<Rightarrow> nat \<Rightarrow> 'pt \<Rightarrow> error + 'r" where
  "func function arg_samples i point =
     (case collect_args arg_samples i of
        Inl e \<Rightarrow> Inl e
      | Inr args \<Rightarrow> function point args)"

definition generate_functions ::
  "('pt \<Rightarrow> 'p list \<Rightarrow> error + 'r) \<Rightarrow> nat \<Rightarrow> ('p, 's) dist list \<Rightarrow> 's
     \<Rightarrow> (error + ('pt \<Rightarrow> error + 'r) list) \<times> 's" where
  "generate_functions function n arg_dists s =
     (case sample_all arg_dists n s of
        (Inl e, s') \<Rightarrow> (Inl e, s')
      | (Inr arg_samples, s') \<Rightarrow> (Inr (map (func function arg_samples) [0..<n]), s'))"

section \<open>uniform_cube\<close>

text \<open>
  The dimension is a natural number; a non-positive \<^verbatim>\<open>domain_dim\<close> behaves like 0 (an
  empty \<^verbatim>\<open>range\<close>, so \<^verbatim>\<open>np.vstack\<close> of nothing). The second branch stacks the ravelled
  coordinate arrays as rows and returns them as they are; \<^verbatim>\<open>map\<close> gives the list of the
  ravelled arrays, in order.
\<close>

definition uniform_cube :: "nat \<Rightarrow> real \<Rightarrow> real \<Rightarrow> error + mat" where
  "uniform_cube domain_dim radius d =
     (if domain_dim = 1 then
        (case arange (- radius) radius d of
           Inl e \<Rightarrow> Inl e
         | Inr domain_points \<Rightarrow> Inr (reshape_column domain_points))
      else
        (case arange (- radius) radius d of
           Inl e \<Rightarrow> Inl e
         | Inr axis \<Rightarrow> vstack (map ravel (meshgrid (replicate domain_dim axis)))))"

text \<open>\<open>uniform_cube\<close> on the ticks of \<open>arange_rounded\<close>; nothing else in it is arithmetic.\<close>

definition uniform_cube_rounded :: "(real \<Rightarrow> real) \<Rightarrow> nat \<Rightarrow> real \<Rightarrow> real \<Rightarrow> error + mat" where
  "uniform_cube_rounded fl domain_dim radius d =
     (if domain_dim = 1 then
        (case arange_rounded fl (- radius) radius d of
           Inl e \<Rightarrow> Inl e
         | Inr domain_points \<Rightarrow> Inr (reshape_column domain_points))
      else
        (case arange_rounded fl (- radius) radius d of
           Inl e \<Rightarrow> Inl e
         | Inr axis \<Rightarrow> vstack (map ravel (meshgrid (replicate domain_dim axis)))))"

section \<open>function_values\<close>

text \<open>The inner loop: every function on one point, in order, up to the first exception.\<close>

fun values_row :: "('pt \<Rightarrow> error + real) list \<Rightarrow> 'pt \<Rightarrow> error + real list" where
  "values_row [] point = Inr []"
| "values_row (function # rest) point =
     (case function point of
        Inl e \<Rightarrow> Inl e
      | Inr v \<Rightarrow> (case values_row rest point of Inl e \<Rightarrow> Inl e | Inr vs \<Rightarrow> Inr (v # vs)))"

text \<open>The outer loop: every point in order.\<close>

fun values_rows :: "('pt \<Rightarrow> error + real) list \<Rightarrow> 'pt list \<Rightarrow> error + real list list" where
  "values_rows functions [] = Inr []"
| "values_rows functions (point # rest) =
     (case values_row functions point of
        Inl e \<Rightarrow> Inl e
      | Inr r \<Rightarrow> (case values_rows functions rest of Inl e \<Rightarrow> Inl e | Inr rs \<Rightarrow> Inr (r # rs)))"

definition function_values :: "('pt \<Rightarrow> error + real) list \<Rightarrow> 'pt list \<Rightarrow> error + mat" where
  "function_values functions domain_points =
     (case values_rows functions domain_points of
        Inl e \<Rightarrow> Inl e
      | Inr values \<Rightarrow>
          Inr \<lparr>nrows = length domain_points, ncols = length functions, rows = values\<rparr>)"

section \<open>Slicing, scaling and products of arrays\<close>

text \<open>
  The stop position of the Python slice \<^verbatim>\<open>[:k]\<close> on a sequence of the given length: a
  negative \<open>k\<close> counts from the end, and positions past either end are clipped.
\<close>

definition slice_stop :: "nat \<Rightarrow> int \<Rightarrow> nat" where
  "slice_stop len k = (if k < 0 then nat (int len + k) else min len (nat k))"

text \<open>\<^verbatim>\<open>A[:, :k]\<close>.\<close>

definition slice_columns :: "mat \<Rightarrow> int \<Rightarrow> mat" where
  "slice_columns A k =
     \<lparr>nrows = nrows A, ncols = slice_stop (ncols A) k,
      rows = map (take (slice_stop (ncols A) k)) (rows A)\<rparr>"

text \<open>\<^verbatim>\<open>A / c\<close> and \<^verbatim>\<open>A * c\<close> for a scalar \<open>c\<close>.\<close>

definition divide_scalar :: "mat \<Rightarrow> real \<Rightarrow> mat" where
  "divide_scalar A c = A\<lparr>rows := map (map (\<lambda>x. x / c)) (rows A)\<rparr>"

definition times_scalar :: "array12 \<Rightarrow> real \<Rightarrow> array12" where
  "times_scalar a c =
     (case a of
        Vec v \<Rightarrow> Vec (map (\<lambda>x. x * c) v)
      | Mat A \<Rightarrow> Mat (A\<lparr>rows := map (map (\<lambda>x. x * c)) (rows A)\<rparr>))"

text \<open>\<^verbatim>\<open>A.T\<close> of a two-dimensional array; a one-dimensional array is its own transpose.\<close>

definition column :: "mat \<Rightarrow> nat \<Rightarrow> real list" where
  "column A j = map (\<lambda>r. r ! j) (rows A)"

definition mat_T :: "mat \<Rightarrow> mat" where
  "mat_T A = \<lparr>nrows = ncols A, ncols = nrows A, rows = map (column A) [0..<ncols A]\<rparr>"

text \<open>
  \<^verbatim>\<open>np.dot\<close> in the three shapes the module uses. Shapes that are not aligned raise
  \<^verbatim>\<open>ValueError\<close>.
\<close>

definition inner :: "real list \<Rightarrow> real list \<Rightarrow> real" where
  "inner u v = sum_list (map2 (*) u v)"


definition dot_vec_mat :: "real list \<Rightarrow> mat \<Rightarrow> error + real list" where
  "dot_vec_mat v B =
     (if length v \<noteq> nrows B then Inl ValueError
      else Inr (map (\<lambda>j. inner v (column B j)) [0..<ncols B]))"

definition dot_mat_mat :: "mat \<Rightarrow> mat \<Rightarrow> error + mat" where
  "dot_mat_mat A B =
     (if ncols A \<noteq> nrows B then Inl ValueError
      else Inr \<lparr>nrows = nrows A, ncols = ncols B,
                rows = map (\<lambda>r. map (\<lambda>j. inner r (column B j)) [0..<ncols B]) (rows A)\<rparr>)"

text \<open>\<^verbatim>\<open>a.shape[0]\<close>.\<close>

definition shape0 :: "array12 \<Rightarrow> nat" where
  "shape0 a = (case a of Vec v \<Rightarrow> length v | Mat A \<Rightarrow> nrows A)"

text \<open>
  \<^verbatim>\<open>a.reshape((k,))\<close>: the elements in C order when \<open>k\<close> is the number of elements, or
  when \<open>k\<close> is \<open>-1\<close> (numpy then infers the length); \<^verbatim>\<open>ValueError\<close> otherwise.
\<close>

definition reshape_flat :: "array12 \<Rightarrow> int \<Rightarrow> error + array12" where
  "reshape_flat a k =
     (let n = (case a of Vec v \<Rightarrow> length v | Mat A \<Rightarrow> nrows A * ncols A);
          elems = (case a of Vec v \<Rightarrow> v | Mat A \<Rightarrow> concat (rows A))
      in if k = - 1 \<or> k = int n then Inr (Vec elems) else Inl ValueError)"

section \<open>Function_Space\<close>

text \<open>
  The fields of the class. \<open>n_basis\<close> is a Python integer and is stored unchecked.
\<close>

record function_space =
  domain :: mat
  fns :: mat
  dx :: real
  n_basis :: int
  U :: mat
  S :: "real list"
  basis :: mat

text \<open>
  The constructor. \<^verbatim>\<open>np.linalg.svd\<close> belongs to numpy, not to this module: it is the
  parameter \<open>svd\<close>, which returns the three factors or raises. Iterating over the
  two-dimensional \<open>domain\<close> in \<open>function_values\<close> yields its rows. The state \<open>s\<close> is the
  one the distributions sample from.
\<close>

definition init ::
  "(mat \<Rightarrow> error + mat \<times> real list \<times> mat) \<Rightarrow> (real list \<Rightarrow> 'p list \<Rightarrow> error + real) \<Rightarrow> nat
     \<Rightarrow> ('p, 's) dist list \<Rightarrow> nat \<Rightarrow> int \<Rightarrow> real \<Rightarrow> real \<Rightarrow> 's
     \<Rightarrow> (error + function_space) \<times> 's" where
  "init svd fn domain_dim dist_args n_functions nb d radius s =
     (case uniform_cube domain_dim radius d of
        Inl e \<Rightarrow> (Inl e, s)
      | Inr grid \<Rightarrow>
          (case generate_functions fn n_functions dist_args s of
             (Inl e, s') \<Rightarrow> (Inl e, s')
           | (Inr functions, s') \<Rightarrow>
               (case function_values functions (rows grid) of
                  Inl e \<Rightarrow> (Inl e, s')
                | Inr vals \<Rightarrow>
                    (case svd vals of
                       Inl e \<Rightarrow> (Inl e, s')
                     | Inr (u, sv, v) \<Rightarrow>
                         (Inr \<lparr>domain = grid, fns = vals, dx = d ^ ncols grid, n_basis = nb,
                               U = u, S = sv,
                               basis = divide_scalar (slice_columns u nb) (sqrt (d ^ ncols grid))\<rparr>,
                          s')))))"

definition select_top_basis :: "function_space \<Rightarrow> int \<Rightarrow> function_space" where
  "select_top_basis self nb =
     self\<lparr>n_basis := nb,
          basis := divide_scalar (slice_columns (U self) nb) (sqrt (dx self))\<rparr>"

definition get_basis :: "function_space \<Rightarrow> mat" where
  "get_basis self = basis self"

definition singular_values :: "function_space \<Rightarrow> real list" where
  "singular_values self = S self"


definition encoder_coeffs :: "function_space \<Rightarrow> error + array12" where
  "encoder_coeffs self =
     (case dot_mat_mat (mat_T (fns self)) (basis self) of
        Inl e \<Rightarrow> Inl e
      | Inr A \<Rightarrow> Inr (times_scalar (Mat A) (dx self)))"

definition signal_coeffs :: "function_space \<Rightarrow> array12 \<Rightarrow> error + array12" where
  "signal_coeffs self signal =
     (case (case signal of
              Vec v \<Rightarrow> map_sum id Vec (dot_vec_mat v (basis self))
            | Mat A \<Rightarrow> map_sum id Mat (dot_mat_mat (mat_T A) (basis self))) of
        Inl e \<Rightarrow> Inl e
      | Inr projected \<Rightarrow>
          (let signal_coeff = times_scalar projected (dx self)
           in if shape0 signal_coeff = 1
              then reshape_flat signal_coeff (n_basis self)
              else Inr signal_coeff))"

section \<open>Auxiliary definitions\<close>

text \<open>
  The three loops that stop at the first exception (\<open>values_row\<close>, \<open>values_rows\<close>,
  \<open>collect_args\<close>) are instances of one traversal, used to reason about them together.
\<close>

fun collect :: "(error + 'a) list \<Rightarrow> error + 'a list" where
  "collect [] = Inr []"
| "collect (x # xs) =
     (case x of
        Inl e \<Rightarrow> Inl e
      | Inr v \<Rightarrow> (case collect xs of Inl e \<Rightarrow> Inl e | Inr vs \<Rightarrow> Inr (v # vs)))"

text \<open>
  The state reached when each distribution of a list has been sampled once, in order,
  with the argument \<open>n\<close>.
\<close>

definition state_after :: "('p, 's) dist list \<Rightarrow> nat \<Rightarrow> 's \<Rightarrow> 's" where
  "state_after arg_dists n s = foldl (\<lambda>st arg_dist. snd (arg_dist n st)) s arg_dists"

text \<open>
  A small instance on which the theorems below are exercised. The base function is the
  indicator of its parameter, the distribution returns the first \<open>n\<close> values of a fixed
  list and counts its calls in the state, and \<open>svd_of_identity\<close> stands for
  \<^verbatim>\<open>np.linalg.svd\<close> on the sample matrices of the instance, which are identity matrices:
  there the three factors are the identity, ones, and the identity.
\<close>

definition indicator_fn :: "real list \<Rightarrow> real list \<Rightarrow> error + real" where
  "indicator_fn point params =
     (case params of
        [c] \<Rightarrow> Inr (if point = [c] then 1 else 0)
      | _ \<Rightarrow> Inl (Raised ''TypeError''))"

definition fixed_dist :: "real list \<Rightarrow> (real, nat) dist" where
  "fixed_dist xs n calls = (Inr (take n xs), Suc calls)"

definition identity_mat :: "nat \<Rightarrow> mat" where
  "identity_mat n =
     \<lparr>nrows = n, ncols = n,
      rows = map (\<lambda>i. map (\<lambda>j. if i = j then 1 else 0) [0..<n]) [0..<n]\<rparr>"

definition svd_of_identity :: "mat \<Rightarrow> error + mat \<times> real list \<times> mat" where
  "svd_of_identity A =
     Inr (identity_mat (nrows A), replicate (min (nrows A) (ncols A)) 1, identity_mat (ncols A))"

text \<open>
  The object that \<^verbatim>\<open>Function_Space(indicator_fn, 1, [fixed_dist([-1, 0])], n_functions=2,
  n_basis=nb, d=1, radius=1)\<close> constructs: two points, two functions, \<open>dx = 1\<close>.
\<close>

definition example_space :: "int \<Rightarrow> function_space" where
  "example_space nb =
     \<lparr>domain = \<lparr>nrows = 2, ncols = 1, rows = [[- 1], [0]]\<rparr>,
      fns = \<lparr>nrows = 2, ncols = 2, rows = [[1, 0], [0, 1]]\<rparr>,
      dx = 1, n_basis = nb,
      U = \<lparr>nrows = 2, ncols = 2, rows = [[1, 0], [0, 1]]\<rparr>,
      S = [1, 1],
      basis = slice_columns \<lparr>nrows = 2, ncols = 2, rows = [[1, 0], [0, 1]]\<rparr> nb\<rparr>"

text \<open>
  The ticks of one axis: what \<^verbatim>\<open>np.arange(-radius, radius, d)\<close> returns for a non-zero step.
\<close>

definition ticks :: "real \<Rightarrow> real \<Rightarrow> real list" where
  "ticks radius d = map (\<lambda>i. - radius + real i * d) [0..<nat \<lceil>(radius - (- radius)) / d\<rceil>]"

text \<open>An array whose stored rows agree with its shape.\<close>

definition well_formed :: "mat \<Rightarrow> bool" where
  "well_formed A \<longleftrightarrow> length (rows A) = nrows A \<and> list_all (\<lambda>r. length r = ncols A) (rows A)"



text \<open>
  Rounding of a real to the nearest double, ties to the even significand: the rounding of
  the arithmetic of Python floats (IEEE 754 binary64, 53 significant bits). The exponent is
  unbounded here, so overflow and subnormal numbers are not covered.
\<close>

definition round_half_even :: "real \<Rightarrow> int" where
  "round_half_even y =
     (if frac y = 1 / 2 then (if even \<lfloor>y\<rfloor> then \<lfloor>y\<rfloor> else \<lfloor>y\<rfloor> + 1) else round y)"

definition round_to_double :: "real \<Rightarrow> real" where
  "round_to_double x =
     (if x = 0 then 0
      else of_int (round_half_even (x / 2 powr of_int (\<lfloor>log 2 \<bar>x\<bar>\<rfloor> - 52))) *
           2 powr of_int (\<lfloor>log 2 \<bar>x\<bar>\<rfloor> - 52))"

section \<open>The example instance\<close>

lemma replicate_two: "replicate 2 x = [x, x]"
  by (simp add: numeral_2_eq_2)

lemma arange_unit: "arange (- 1) 1 1 = Inr [- 1, 0]"
  by (simp add: arange_def upt_conv_Cons)

lemma uniform_cube_unit:
  "uniform_cube 1 1 1 = Inr \<lparr>nrows = 2, ncols = 1, rows = [[- 1], [0]]\<rparr>"
  by (simp add: uniform_cube_def arange_unit reshape_column_def)

lemma generate_functions_unit:
  "generate_functions indicator_fn 2 [fixed_dist [- 1, 0]] c =
     (Inr (map (func indicator_fn [[- 1, 0]]) [0, 1]), Suc c)"
  by (simp add: generate_functions_def fixed_dist_def upt_conv_Cons)

lemma function_values_unit:
  "function_values (map (func indicator_fn [[- 1, 0]]) [0, 1]) [[- 1], [0]] =
     Inr \<lparr>nrows = 2, ncols = 2, rows = [[1, 0], [0, 1]]\<rparr>"
  by (simp add: function_values_def func_def indicator_fn_def)

lemma identity_mat_two:
  "identity_mat 2 = \<lparr>nrows = 2, ncols = 2, rows = [[1, 0], [0, 1]]\<rparr>"
  by (simp add: identity_mat_def upt_conv_Cons)

lemma svd_of_identity_two:
  "svd_of_identity \<lparr>nrows = 2, ncols = 2, rows = [[1, 0], [0, 1]]\<rparr> =
     Inr (\<lparr>nrows = 2, ncols = 2, rows = [[1, 0], [0, 1]]\<rparr>, [1, 1],
          \<lparr>nrows = 2, ncols = 2, rows = [[1, 0], [0, 1]]\<rparr>)"
  by (simp add: svd_of_identity_def identity_mat_two replicate_two)

lemma init_example:
  "init svd_of_identity indicator_fn 1 [fixed_dist [- 1, 0]] 2 nb 1 1 c =
     (Inr (example_space nb), Suc c)"
proof -
  have "divide_scalar A (sqrt (1 ^ k)) = A" for A k
    by (simp add: divide_scalar_def)
  then show ?thesis
    by (simp only: init_def uniform_cube_unit generate_functions_unit function_values_unit
        svd_of_identity_two sum.case prod.case mat.simps power_one example_space_def)
qed

lemma slice_stop_nonneg: "0 \<le> k \<Longrightarrow> slice_stop len k = min len (nat k)"
  by (simp add: slice_stop_def)

section \<open>function_values\<close>

lemma values_row_collect: "values_row fs p = collect (map (\<lambda>f. f p) fs)"
  by (induction fs) (auto split: sum.splits)

lemma values_rows_collect: "values_rows fs pts = collect (map (values_row fs) pts)"
  by (induction pts) (auto split: sum.splits)

lemma collect_Inr: "collect xs = Inr vs \<longleftrightarrow> xs = map Inr vs"
proof (induction xs arbitrary: vs)
  case Nil
  then show ?case by auto
next
  case (Cons x xs)
  show ?case
  proof (cases x)
    case (Inl e)
    then show ?thesis by (cases vs) auto
  next
    case (Inr v)
    show ?thesis
    proof (cases "collect xs")
      case (Inl e)
      have "xs \<noteq> map Inr ws" for ws :: "'a list"
        using Cons.IH[of ws] Inl by simp
      then have "x # xs \<noteq> map Inr vs"
        by (cases vs) auto
      with Inl Inr show ?thesis by simp
    next
      case (Inr ws)
      then have xs: "xs = map Inr ws" using Cons.IH by simp
      have "x # xs = map Inr vs \<longleftrightarrow> vs = v # ws"
        using xs \<open>x = Inr v\<close> by (cases vs) auto
      with Inr \<open>x = Inr v\<close> show ?thesis by auto
    qed
  qed
qed

text \<open>The traversal fails with the error of the first failing element.\<close>

lemma collect_Inl:
  "collect xs = Inl e \<longleftrightarrow> (\<exists>i<length xs. xs ! i = Inl e \<and> (\<forall>i'<i. \<exists>v. xs ! i' = Inr v))"
proof (induction xs)
  case Nil
  then show ?case by simp
next
  case (Cons x xs)
  show ?case
  proof (cases x)
    case (Inl e')
    have "(\<exists>i<length (x # xs). (x # xs) ! i = Inl e \<and> (\<forall>i'<i. \<exists>v. (x # xs) ! i' = Inr v))
            \<longleftrightarrow> e' = e"
    proof
      assume "\<exists>i<length (x # xs). (x # xs) ! i = Inl e \<and> (\<forall>i'<i. \<exists>v. (x # xs) ! i' = Inr v)"
      then obtain i where i: "(x # xs) ! i = Inl e" "\<forall>i'<i. \<exists>v. (x # xs) ! i' = Inr v"
        by blast
      show "e' = e"
      proof (cases i)
        case 0
        with i Inl show ?thesis by simp
      next
        case (Suc j)
        with i(2) have "\<exists>v. (x # xs) ! 0 = Inr v" by blast
        with Inl show ?thesis by simp
      qed
    next
      assume "e' = e"
      with Inl have "(x # xs) ! 0 = Inl e \<and> (\<forall>i'<0. \<exists>v. (x # xs) ! i' = Inr v)" by simp
      then show "\<exists>i<length (x # xs). (x # xs) ! i = Inl e \<and> (\<forall>i'<i. \<exists>v. (x # xs) ! i' = Inr v)"
        by (intro exI[of _ 0]) simp
    qed
    with Inl show ?thesis by simp
  next
    case (Inr v)
    have "(\<exists>i<length (x # xs). (x # xs) ! i = Inl e \<and> (\<forall>i'<i. \<exists>v. (x # xs) ! i' = Inr v)) \<longleftrightarrow>
          (\<exists>i<length xs. xs ! i = Inl e \<and> (\<forall>i'<i. \<exists>v. xs ! i' = Inr v))" (is "?L \<longleftrightarrow> ?R")
    proof
      assume ?L
      then obtain i where i: "i < length (x # xs)" "(x # xs) ! i = Inl e"
        "\<forall>i'<i. \<exists>v. (x # xs) ! i' = Inr v" by blast
      from i(2) Inr obtain j where j: "i = Suc j" by (cases i) auto
      have "\<forall>i'<j. \<exists>v. xs ! i' = Inr v"
      proof (intro allI impI)
        fix i' assume "i' < j"
        then have "Suc i' < i" using j by simp
        with i(3) have "\<exists>v. (x # xs) ! Suc i' = Inr v" by blast
        then show "\<exists>v. xs ! i' = Inr v" by simp
      qed
      with i(1,2) j show ?R by auto
    next
      assume ?R
      then obtain j where j: "j < length xs" "xs ! j = Inl e" "\<forall>i'<j. \<exists>v. xs ! i' = Inr v"
        by blast
      have "\<forall>i'<Suc j. \<exists>v. (x # xs) ! i' = Inr v"
      proof (intro allI impI)
        fix i' assume "i' < Suc j"
        then show "\<exists>v. (x # xs) ! i' = Inr v"
          using Inr j(3) by (cases i') auto
      qed
      with j(1,2) show ?L by (intro exI[of _ "Suc j"]) simp
    qed
    with Inr Cons.IH show ?thesis by (auto split: sum.splits)
  qed
qed

lemma values_row_Inr:
  "values_row fs p = Inr vs \<longleftrightarrow>
     length vs = length fs \<and> (\<forall>i<length fs. (fs ! i) p = Inr (vs ! i))"
  unfolding values_row_collect collect_Inr
  by (auto simp: list_eq_iff_nth_eq)

lemma values_row_Inl:
  "values_row fs p = Inl e \<longleftrightarrow>
     (\<exists>i<length fs. (fs ! i) p = Inl e \<and> (\<forall>i'<i. \<exists>v. (fs ! i') p = Inr v))"
  unfolding values_row_collect collect_Inl by auto

lemma values_rows_Inr:
  "values_rows fs pts = Inr rs \<longleftrightarrow>
     length rs = length pts \<and> (\<forall>j<length pts. values_row fs (pts ! j) = Inr (rs ! j))"
  unfolding values_rows_collect collect_Inr
  by (auto simp: list_eq_iff_nth_eq)

lemma values_rows_Inl:
  "values_rows fs pts = Inl e \<longleftrightarrow>
     (\<exists>j<length pts. values_row fs (pts ! j) = Inl e \<and>
        (\<forall>j'<j. \<exists>r. values_row fs (pts ! j') = Inr r))"
  unfolding values_rows_collect collect_Inl by auto

lemma values_row_total:
  "(\<forall>i<length fs. \<exists>v. (fs ! i) p = Inr v) \<longleftrightarrow> (\<exists>vs. values_row fs p = Inr vs)"
proof
  assume a: "\<forall>i<length fs. \<exists>v. (fs ! i) p = Inr v"
  have "values_row fs p = Inr (map (\<lambda>f. projr (f p)) fs)"
    unfolding values_row_Inr using a by auto
  then show "\<exists>vs. values_row fs p = Inr vs" ..
next
  assume "\<exists>vs. values_row fs p = Inr vs"
  then show "\<forall>i<length fs. \<exists>v. (fs ! i) p = Inr v"
    unfolding values_row_Inr by auto
qed

text \<open>
  C7. When every function returns on every point, \<open>function_values\<close> returns a matrix of
  shape (number of points, number of functions) whose entry \<open>(j, i)\<close> is the value of
  function \<open>i\<close> at point \<open>j\<close>. It raises \<open>e\<close> exactly when some function raises \<open>e\<close> on some
  point and every evaluation before it, points outermost and functions innermost, has
  returned: the only failures are exceptions of the functions, met in that order.
\<close>

theorem function_values_matrix:
  "((\<forall>j<length pts. \<forall>i<length fs. \<exists>v. (fs ! i) (pts ! j) = Inr v) \<longrightarrow>
      (\<exists>A. function_values fs pts = Inr A \<and> nrows A = length pts \<and> ncols A = length fs \<and>
           length (rows A) = length pts \<and>
           (\<forall>j<length pts. length (rows A ! j) = length fs \<and>
              (\<forall>i<length fs. (fs ! i) (pts ! j) = Inr (rows A ! j ! i))))) \<and>
   (\<forall>e. function_values fs pts = Inl e \<longleftrightarrow>
      (\<exists>j<length pts. \<exists>i<length fs. (fs ! i) (pts ! j) = Inl e \<and>
         (\<forall>j'<j. \<forall>i'<length fs. \<exists>v. (fs ! i') (pts ! j') = Inr v) \<and>
         (\<forall>i'<i. \<exists>v. (fs ! i') (pts ! j) = Inr v)))"
proof (intro conjI impI allI)
  assume ok: "\<forall>j<length pts. \<forall>i<length fs. \<exists>v. (fs ! i) (pts ! j) = Inr v"
  define rs where "rs = map (\<lambda>p. map (\<lambda>f. projr (f p)) fs) pts"
  have row: "values_row fs (pts ! j) = Inr (rs ! j)" if "j < length pts" for j
  proof -
    from ok that have "\<forall>i<length fs. \<exists>v. (fs ! i) (pts ! j) = Inr v" by blast
    then have "\<forall>i<length fs. (fs ! i) (pts ! j) = Inr (projr ((fs ! i) (pts ! j)))"
      by (metis sum.sel(2))
    then show ?thesis
      unfolding values_row_Inr rs_def using that by simp
  qed
  then have "values_rows fs pts = Inr rs"
    unfolding values_rows_Inr by (simp add: rs_def)
  then have fv: "function_values fs pts = Inr \<lparr>nrows = length pts, ncols = length fs, rows = rs\<rparr>"
    by (simp add: function_values_def)
  have "length (rs ! j) = length fs \<and> (\<forall>i<length fs. (fs ! i) (pts ! j) = Inr (rs ! j ! i))"
    if "j < length pts" for j
    using row[OF that] unfolding values_row_Inr by simp
  with fv show "\<exists>A. function_values fs pts = Inr A \<and> nrows A = length pts \<and> ncols A = length fs \<and>
           length (rows A) = length pts \<and>
           (\<forall>j<length pts. length (rows A ! j) = length fs \<and>
              (\<forall>i<length fs. (fs ! i) (pts ! j) = Inr (rows A ! j ! i)))"
    by (simp add: rs_def)
next
  fix e
  have "function_values fs pts = Inl e \<longleftrightarrow> values_rows fs pts = Inl e"
    by (simp add: function_values_def split: sum.splits)
  also have "\<dots> \<longleftrightarrow> (\<exists>j<length pts. values_row fs (pts ! j) = Inl e \<and>
        (\<forall>j'<j. \<forall>i'<length fs. \<exists>v. (fs ! i') (pts ! j') = Inr v))"
    unfolding values_rows_Inl values_row_total ..
  also have "\<dots> \<longleftrightarrow> (\<exists>j<length pts. \<exists>i<length fs. (fs ! i) (pts ! j) = Inl e \<and>
         (\<forall>j'<j. \<forall>i'<length fs. \<exists>v. (fs ! i') (pts ! j') = Inr v) \<and>
         (\<forall>i'<i. \<exists>v. (fs ! i') (pts ! j) = Inr v))"
    unfolding values_row_Inl by blast
  finally show "function_values fs pts = Inl e \<longleftrightarrow>
      (\<exists>j<length pts. \<exists>i<length fs. (fs ! i) (pts ! j) = Inl e \<and>
         (\<forall>j'<j. \<forall>i'<length fs. \<exists>v. (fs ! i') (pts ! j') = Inr v) \<and>
         (\<forall>i'<i. \<exists>v. (fs ! i') (pts ! j) = Inr v))" .
qed

text \<open>
  The theorem at two points and two functions: the squares of 1 and 2 fill the second
  column, and a function that raises on the second point makes the call raise.
\<close>

theorem function_values_matrix_witness:
  "(\<exists>A. function_values [\<lambda>x. Inr x, \<lambda>x. Inr (x * x)] [1, 2 :: real] = Inr A \<and>
        nrows A = 2 \<and> ncols A = 2 \<and> rows A ! 1 ! 1 = 4 \<and> rows A ! 1 ! 0 = 2) \<and>
   function_values [\<lambda>x. Inr x, \<lambda>x. if x = 2 then Inl (Raised ''boom'') else Inr x] [1, 2 :: real]
     = Inl (Raised ''boom'')"
proof
  let ?fs = "[\<lambda>x. Inr x, \<lambda>x::real. Inr (x * x)] :: (real \<Rightarrow> error + real) list"
  let ?pts = "[1, 2] :: real list"
  have h: "\<forall>j<length ?pts. \<forall>i<length ?fs. \<exists>v. (?fs ! i) (?pts ! j) = Inr v"
    by (simp add: nth_Cons')
  from function_values_matrix[of ?pts ?fs] h obtain A where
    A: "function_values ?fs ?pts = Inr A" "nrows A = length ?pts" "ncols A = length ?fs"
       "\<forall>j<length ?pts. length (rows A ! j) = length ?fs \<and>
          (\<forall>i<length ?fs. (?fs ! i) (?pts ! j) = Inr (rows A ! j ! i))"
    by blast
  from A(4)[THEN spec, of 1]
  have row: "\<forall>i<length ?fs. (?fs ! i) (?pts ! 1) = Inr (rows A ! 1 ! i)" by simp
  from row[THEN spec, of 1] row[THEN spec, of 0]
  have "rows A ! 1 ! 1 = 4" "rows A ! 1 ! 0 = 2" by simp_all
  with A(1,2,3) show "\<exists>A. function_values ?fs ?pts = Inr A \<and>
        nrows A = 2 \<and> ncols A = 2 \<and> rows A ! 1 ! 1 = 4 \<and> rows A ! 1 ! 0 = 2"
    by simp
next
  let ?gs = "[\<lambda>x. Inr x, \<lambda>x::real. if x = 2 then Inl (Raised ''boom'') else Inr x]
               :: (real \<Rightarrow> error + real) list"
  let ?pts = "[1, 2] :: real list"
  have "\<exists>j<length ?pts. \<exists>i<length ?gs. (?gs ! i) (?pts ! j) = Inl (Raised ''boom'') \<and>
         (\<forall>j'<j. \<forall>i'<length ?gs. \<exists>v. (?gs ! i') (?pts ! j') = Inr v) \<and>
         (\<forall>i'<i. \<exists>v. (?gs ! i') (?pts ! j) = Inr v)"
    by (intro exI[of _ 1] conjI) (simp_all add: nth_Cons')
  with function_values_matrix[of ?pts ?gs]
  show "function_values ?gs ?pts = Inl (Raised ''boom'')" by blast
qed

section \<open>generate_functions\<close>

lemma state_after_Nil: "state_after [] n s = s"
  by (simp add: state_after_def)

lemma state_after_Cons: "state_after (d # ds) n s = state_after ds n (snd (d n s))"
  by (simp add: state_after_def)

text \<open>
  When the sampling succeeds there is one sample per distribution, and distribution \<open>j\<close>
  was called once, with \<open>n\<close>, in the state its predecessors left.
\<close>

lemma sample_all_Inr:
  "sample_all dists n s = (Inr samples, s') \<Longrightarrow>
     length samples = length dists \<and> s' = state_after dists n s \<and>
     (\<forall>j<length dists.
        (dists ! j) n (state_after (take j dists) n s) =
          (Inr (samples ! j), state_after (take (Suc j) dists) n s))"
proof (induction dists arbitrary: s samples)
  case Nil
  then show ?case by (simp add: state_after_Nil)
next
  case (Cons d ds)
  from Cons.prems obtain smp s1 rest where
    d: "d n s = (Inr smp, s1)" and r: "sample_all ds n s1 = (Inr rest, s')" and
    sm: "samples = smp # rest"
    by (auto split: prod.splits sum.splits)
  note IH = Cons.IH[OF r]
  have s1: "snd (d n s) = s1" using d by simp
  have "((d # ds) ! j) n (state_after (take j (d # ds)) n s) =
          (Inr (samples ! j), state_after (take (Suc j) (d # ds)) n s)"
    if "j < length (d # ds)" for j
  proof (cases j)
    case 0
    then show ?thesis using d sm by (simp add: state_after_Nil state_after_Cons)
  next
    case (Suc i)
    with that have "i < length ds" by simp
    with IH have "(ds ! i) n (state_after (take i ds) n s1) =
          (Inr (rest ! i), state_after (take (Suc i) ds) n s1)" by blast
    then show ?thesis using Suc sm s1 by (simp add: state_after_Cons)
  qed
  with IH sm s1 show ?case by (simp add: state_after_Cons)
qed

lemma collect_args_Inr:
  "\<forall>smp\<in>set samples. k < length smp \<Longrightarrow>
     collect_args samples k = Inr (map (\<lambda>smp. smp ! k) samples)"
  by (induction samples) auto

text \<open>
  Sampling succeeds exactly when each distribution returns in the state in which it is
  called, and then the final state is the one after all the calls.
\<close>

lemma sample_all_total:
  "\<forall>j<length dists. \<exists>smp. fst ((dists ! j) n (state_after (take j dists) n s)) = Inr smp \<Longrightarrow>
     \<exists>samples. sample_all dists n s = (Inr samples, state_after dists n s)"
proof (induction dists arbitrary: s)
  case Nil
  then show ?case by (simp add: state_after_Nil)
next
  case (Cons d ds)
  from Cons.prems[THEN spec, of 0] obtain smp where "fst (d n s) = Inr smp"
    by (auto simp: state_after_Nil)
  then obtain s1 where d: "d n s = (Inr smp, s1)"
    by (cases "d n s") auto
  have "\<forall>j<length ds. \<exists>smp. fst ((ds ! j) n (state_after (take j ds) n s1)) = Inr smp"
  proof (intro allI impI)
    fix j assume "j < length ds"
    with Cons.prems[THEN spec, of "Suc j"] d
    show "\<exists>smp. fst ((ds ! j) n (state_after (take j ds) n s1)) = Inr smp"
      by (simp add: state_after_Cons)
  qed
  from Cons.IH[OF this] obtain rest where
    "sample_all ds n s1 = (Inr rest, state_after ds n s1)" by blast
  with d show ?case by (simp add: state_after_Cons)
qed

lemma generate_functions_returns:
  "(\<exists>funcs s'. generate_functions f n dists s = (Inr funcs, s')) \<longleftrightarrow>
   (\<forall>j<length dists. \<exists>smp. fst ((dists ! j) n (state_after (take j dists) n s)) = Inr smp)"
proof
  assume "\<exists>funcs s'. generate_functions f n dists s = (Inr funcs, s')"
  then obtain samples s' where "sample_all dists n s = (Inr samples, s')"
    by (auto simp: generate_functions_def split: prod.splits sum.splits)
  from sample_all_Inr[OF this]
  show "\<forall>j<length dists. \<exists>smp. fst ((dists ! j) n (state_after (take j dists) n s)) = Inr smp"
    by auto
next
  assume "\<forall>j<length dists. \<exists>smp. fst ((dists ! j) n (state_after (take j dists) n s)) = Inr smp"
  from sample_all_total[OF this]
  show "\<exists>funcs s'. generate_functions f n dists s = (Inr funcs, s')"
    by (auto simp: generate_functions_def)
qed

text \<open>
  C6. \<open>generate_functions\<close> returns exactly when every \<^verbatim>\<open>sample(n)\<close> call returns, each
  distribution being called in the state its predecessors left (otherwise it raises, and no
  other exception is possible). When it returns, every distribution has been sampled
  exactly once, with the argument \<open>n\<close>, in order and before any function is made (the final
  state is the one after those calls, and calling a generated function touches no state).
  It returns exactly \<open>n\<close> functions; the \<open>k\<close>-th, applied to a point \<open>p\<close>, returns
  \<open>f(p, s\<^sub>0[k], ..., s\<^sub>m[k])\<close> where \<open>s\<^sub>j\<close> is the sample of distribution \<open>j\<close> (each sample
  having an entry \<open>k\<close>, as \<^verbatim>\<open>sample(n)\<close> promises). In particular a constant base function
  gives \<open>n\<close> functions that return that constant on every point, whatever was sampled.
\<close>

theorem generate_functions_spec:
  "((\<exists>funcs s'. generate_functions f n dists s = (Inr funcs, s')) \<longleftrightarrow>
      (\<forall>j<length dists. \<exists>smp.
         fst ((dists ! j) n (state_after (take j dists) n s)) = Inr smp)) \<and>
   (\<forall>funcs s'. generate_functions f n dists s = (Inr funcs, s') \<longrightarrow>
      length funcs = n \<and> s' = state_after dists n s \<and>
      (\<exists>samples. length samples = length dists \<and>
         (\<forall>j<length dists.
            (dists ! j) n (state_after (take j dists) n s) =
              (Inr (samples ! j), state_after (take (Suc j) dists) n s)) \<and>
         (\<forall>k<n. \<forall>p. (\<forall>smp\<in>set samples. k < length smp) \<longrightarrow>
            (funcs ! k) p = f p (map (\<lambda>smp. smp ! k) samples)) \<and>
         (\<forall>c. (\<forall>smp\<in>set samples. length smp = n) \<longrightarrow> (\<forall>q ps. f q ps = Inr c) \<longrightarrow>
            (\<forall>k<n. \<forall>p. (funcs ! k) p = Inr c))))"
proof (intro conjI allI impI)
  show "(\<exists>funcs s'. generate_functions f n dists s = (Inr funcs, s')) \<longleftrightarrow>
      (\<forall>j<length dists. \<exists>smp.
         fst ((dists ! j) n (state_after (take j dists) n s)) = Inr smp)"
    by (rule generate_functions_returns)
next
  fix funcs s'
  assume ret: "generate_functions f n dists s = (Inr funcs, s')"
  from ret obtain samples where
    sa: "sample_all dists n s = (Inr samples, s')" and
    fu: "funcs = map (func f samples) [0..<n]"
    by (auto simp: generate_functions_def split: prod.splits sum.splits)
  note st = sample_all_Inr[OF sa]
  have call: "(funcs ! k) p = f p (map (\<lambda>smp. smp ! k) samples)"
    if "k < n" "\<forall>smp\<in>set samples. k < length smp" for k p
    using that fu by (simp add: func_def collect_args_Inr)
  have const: "(funcs ! k) p = Inr c"
    if "\<forall>smp\<in>set samples. length smp = n" "\<forall>q ps. f q ps = Inr c" "k < n" for c k p
  proof -
    from that(1,3) have "\<forall>smp\<in>set samples. k < length smp" by simp
    from call[OF that(3) this] that(2) show ?thesis by simp
  qed
  from fu show "length funcs = n" by simp
  from st show "s' = state_after dists n s" by simp
  from st call const
  show "\<exists>samples. length samples = length dists \<and>
         (\<forall>j<length dists.
            (dists ! j) n (state_after (take j dists) n s) =
              (Inr (samples ! j), state_after (take (Suc j) dists) n s)) \<and>
         (\<forall>k<n. \<forall>p. (\<forall>smp\<in>set samples. k < length smp) \<longrightarrow>
            (funcs ! k) p = f p (map (\<lambda>smp. smp ! k) samples)) \<and>
         (\<forall>c. (\<forall>smp\<in>set samples. length smp = n) \<longrightarrow> (\<forall>q ps. f q ps = Inr c) \<longrightarrow>
            (\<forall>k<n. \<forall>p. (funcs ! k) p = Inr c))"
    by blast
qed

text \<open>
  The theorem on the example instance: the one distribution returns, so the call returns;
  two functions come back, the distribution's call counter went from 0 to 1, and the second function is the indicator of the second
  sampled value. With the constant base function 1 both functions return 1.
\<close>

theorem generate_functions_spec_witness:
  "length (map (func indicator_fn [[- 1, 0]]) [0, 1]) = 2 \<and>
   state_after [fixed_dist [- 1, 0]] 2 0 = 1 \<and>
   (map (func indicator_fn [[- 1, 0]]) [0, 1] ! 1) [0] = Inr 1 \<and>
   (map (func indicator_fn [[- 1, 0]]) [0, 1] ! 1) [- 1] = Inr 0 \<and>
   (\<exists>funcs. generate_functions (\<lambda>(p :: real list) (ps :: real list). Inr (1 :: real)) 2
              [fixed_dist [- 1, 0]] 0 = (Inr funcs, 1) \<and>
            (funcs ! 0) [5] = Inr 1 \<and> (funcs ! 1) [5] = Inr 1)"
proof -
  let ?funcs = "map (func indicator_fn [[- 1, 0]]) [0, 1]"
  let ?dists = "[fixed_dist [- 1, 0]]"
  from generate_functions_spec[THEN conjunct2, rule_format, OF generate_functions_unit[of 0]]
  obtain samples where
    len: "length ?funcs = 2" and st: "Suc 0 = state_after ?dists 2 0" and
    ls: "length samples = length ?dists" and
    each: "\<forall>j<length ?dists.
          (?dists ! j) 2 (state_after (take j ?dists) 2 0) =
            (Inr (samples ! j), state_after (take (Suc j) ?dists) 2 0)" and
    call: "\<forall>k<2. \<forall>p. (\<forall>smp\<in>set samples. k < length smp) \<longrightarrow>
          (?funcs ! k) p = indicator_fn p (map (\<lambda>smp. smp ! k) samples)"
    by blast
  from each[THEN spec, of 0] have "samples ! 0 = [- 1, 0]"
    by (simp add: fixed_dist_def state_after_Nil)
  with ls have samples: "samples = [[- 1, 0]]"
    by (cases samples) auto
  from call[THEN spec, of 1] samples
  have c1: "(?funcs ! 1) p = indicator_fn p [0]" for p
    by simp
  have part1: "(?funcs ! 1) [0] = Inr 1" "(?funcs ! 1) [- 1] = Inr 0"
    unfolding c1 by (simp_all add: indicator_fn_def)
  let ?one = "\<lambda>(p :: real list) (ps :: real list). (Inr (1 :: real) :: error + real)"
  have "\<forall>j<length ?dists. \<exists>smp.
      fst ((?dists ! j) 2 (state_after (take j ?dists) 2 0)) = Inr smp"
    by (simp add: fixed_dist_def)
  with generate_functions_spec[THEN conjunct1, of ?one 2 ?dists 0]
  obtain funcs s' where g': "generate_functions ?one 2 ?dists 0 = (Inr funcs, s')"
    by blast
  from generate_functions_spec[THEN conjunct2, rule_format, OF g'] st
  have "s' = 1" by simp
  with g' have g: "generate_functions ?one 2 ?dists 0 = (Inr funcs, 1)" by simp
  from generate_functions_spec[THEN conjunct2, rule_format, OF g]
  obtain samples' where
    ls': "length samples' = length ?dists" and
    each': "\<forall>j<length ?dists.
          (?dists ! j) 2 (state_after (take j ?dists) 2 0) =
            (Inr (samples' ! j), state_after (take (Suc j) ?dists) 2 0)" and
    const: "\<forall>c. (\<forall>smp\<in>set samples'. length smp = 2) \<longrightarrow> (\<forall>q ps. ?one q ps = Inr c) \<longrightarrow>
          (\<forall>k<2. \<forall>p. (funcs ! k) p = Inr c)"
    by blast
  from each'[THEN spec, of 0] have "samples' ! 0 = [- 1, 0]"
    by (simp add: fixed_dist_def state_after_Nil)
  with ls' have "samples' = [[- 1, 0]]"
    by (cases samples') auto
  with const[THEN spec, of 1] have "\<forall>k<2. \<forall>p. (funcs ! k) p = Inr 1"
    by simp
  then have "(funcs ! 0) [5] = Inr 1" "(funcs ! 1) [5] = Inr 1"
    by simp_all
  with g len st part1 show ?thesis by auto
qed

section \<open>select_top_basis\<close>

lemma slice_columns_example:
  "0 \<le> k \<Longrightarrow>
   slice_columns \<lparr>nrows = 2, ncols = 2, rows = [[1, 0], [0, 1]]\<rparr> k =
     \<lparr>nrows = 2, ncols = min 2 (nat k), rows = [take (nat k) [1, 0], take (nat k) [0, 1]]\<rparr>"
  by (simp add: slice_columns_def slice_stop_def min_def)

lemma init_basis:
  assumes "init svd fn domain_dim dist_args n_functions nb d radius s = (Inr self, s')"
  shows "basis self = divide_scalar (slice_columns (U self) nb) (sqrt (dx self))"
    and "n_basis self = nb"
  using assms
  by (auto simp: init_def split: sum.splits prod.splits)

text \<open>
  C10. \<open>select_top_basis\<close> is a total function on objects and non-negative integers: it has
  no failing branch, whatever \<open>k\<close> is. It stores \<open>k\<close> in \<open>n_basis\<close> and the first
  \<open>min(k, U.shape[1])\<close> columns of \<open>U\<close>, scaled, in \<open>basis\<close>; so when \<open>k\<close> exceeds the
  number of columns of \<open>U\<close> the basis keeps all of them and \<open>n_basis\<close> no longer equals the
  number of basis columns.
\<close>

theorem select_top_basis_out_of_range:
  "0 \<le> k \<Longrightarrow>
     n_basis (select_top_basis self k) = k \<and>
     nrows (basis (select_top_basis self k)) = nrows (U self) \<and>
     ncols (basis (select_top_basis self k)) = min (nat k) (ncols (U self)) \<and>
     rows (basis (select_top_basis self k)) =
       map (\<lambda>r. map (\<lambda>x. x / sqrt (dx self)) (take (min (nat k) (ncols (U self))) r))
         (rows (U self)) \<and>
     (int (ncols (U self)) < k \<longrightarrow>
        ncols (basis (select_top_basis self k)) = ncols (U self) \<and>
        n_basis (select_top_basis self k) \<noteq> int (ncols (basis (select_top_basis self k))))"
  by (auto simp: select_top_basis_def divide_scalar_def slice_columns_def slice_stop_def
      min_def)

text \<open>
  On the example object, which has two singular vectors: asking for three leaves
  \<open>n_basis = 3\<close> and a basis of two columns.
\<close>

theorem select_top_basis_out_of_range_witness:
  "n_basis (select_top_basis (example_space 2) 3) = 3 \<and>
   ncols (basis (select_top_basis (example_space 2) 3)) = 2 \<and>
   rows (basis (select_top_basis (example_space 2) 3)) = [[1, 0], [0, 1]]"
proof -
  have h: "(0 :: int) \<le> 3" by simp
  have u: "ncols (U (example_space 2)) = 2" "rows (U (example_space 2)) = [[1, 0], [0, 1]]"
    "dx (example_space 2) = 1"
    by (simp_all add: example_space_def)
  from select_top_basis_out_of_range[OF h, of "example_space 2"]
  show ?thesis
    unfolding u by simp
qed

text \<open>
  C5 (as stated). The claim lets \<open>k\<close> range up to the number of columns of \<open>U\<close>. The example
  object is constructed with \<open>n_basis = 1\<close> and has two singular vectors; after
  \<open>select_top_basis(2)\<close> the basis has two columns, which are not the first two columns of
  the one-column basis computed at construction.
\<close>

theorem select_top_basis_original_basis_counterexample:
  "init svd_of_identity indicator_fn 1 [fixed_dist [- 1, 0]] 2 1 1 1 0 =
     (Inr (example_space 1), 1) \<and>
   (1 :: int) \<le> 2 \<and> 2 \<le> int (ncols (U (example_space 1))) \<and>
   get_basis (example_space 1) = \<lparr>nrows = 2, ncols = 1, rows = [[1], [0]]\<rparr> \<and>
   slice_columns (get_basis (example_space 1)) 2 = \<lparr>nrows = 2, ncols = 1, rows = [[1], [0]]\<rparr> \<and>
   get_basis (select_top_basis (example_space 1) 2) =
     \<lparr>nrows = 2, ncols = 2, rows = [[1, 0], [0, 1]]\<rparr> \<and>
   get_basis (select_top_basis (example_space 1) 2) \<noteq> slice_columns (get_basis (example_space 1)) 2"
proof -
  have i: "init svd_of_identity indicator_fn 1 [fixed_dist [- 1, 0]] 2 1 1 1 0 =
     (Inr (example_space 1), 1)"
    using init_example[of 1 0] by simp
  have b: "get_basis (example_space 1) = \<lparr>nrows = 2, ncols = 1, rows = [[1], [0]]\<rparr>"
    by (simp add: get_basis_def example_space_def slice_columns_def slice_stop_def)
  have s: "slice_columns \<lparr>nrows = 2, ncols = 1, rows = [[1], [0]]\<rparr> 2 =
      \<lparr>nrows = 2, ncols = 1, rows = [[1], [0]]\<rparr>"
    by (simp add: slice_columns_def slice_stop_def)
  have t: "get_basis (select_top_basis (example_space 1) 2) =
     \<lparr>nrows = 2, ncols = 2, rows = [[1, 0], [0, 1]]\<rparr>"
    by (simp add: get_basis_def select_top_basis_def example_space_def slice_columns_def
        slice_stop_def divide_scalar_def)
  have u: "ncols (U (example_space 1)) = 2"
    by (simp add: example_space_def)
  show ?thesis
    unfolding b s t u using i by simp
qed

lemma slice_stop_pos: "0 \<le> k \<Longrightarrow> slice_stop n k = min n (nat k)"
  by (simp add: slice_stop_def)

lemma slice_columns_divide_scalar:
  assumes "1 \<le> k" and "k \<le> int (slice_stop (ncols A) nb)"
  shows "slice_columns (divide_scalar (slice_columns A nb) c) k =
         divide_scalar (slice_columns A k) c"
proof -
  let ?m = "slice_stop (ncols A) nb"
  have "?m \<le> ncols A" by (auto simp: slice_stop_def)
  with assms have 1: "slice_stop ?m k = nat k" and 2: "slice_stop (ncols A) k = nat k"
    and 3: "min (nat k) ?m = nat k"
    by (auto simp: slice_stop_pos)
  show ?thesis
    by (simp add: divide_scalar_def slice_columns_def 1 2 3 take_map)
qed

text \<open>
  C5 (amended). For every constructed Function_Space and every integer \<open>k\<close>: after
  \<open>select_top_basis(k)\<close>, \<open>singular_values()\<close> returns the unchanged full-length sequence, the
  fields \<open>domain\<close>, \<open>fns\<close>, \<open>dx\<close>, \<open>U\<close> and \<open>S\<close> are unmodified, \<open>n_basis\<close> is \<open>k\<close>, and
  \<open>get_basis()\<close> is re-sliced from the stored \<open>U\<close>, not recomputed: it is \<open>U[:, :k] / sqrt(dx)\<close>.
  For \<open>1 \<le> k \<le> U.shape[1]\<close> this has exactly \<open>k\<close> columns, and it is the first \<open>k\<close> columns of
  the basis computed at construction exactly when \<open>k\<close> is at most the number of columns of
  that basis, which is \<open>min(n_basis, U.shape[1])\<close> for a constructor argument \<open>n_basis \<ge> 0\<close>.
\<close>

theorem select_top_basis_truncation:
  assumes "init svd fn domain_dim dist_args n_functions nb d radius s = (Inr self, s')"
  shows "(\<forall>k. singular_values (select_top_basis self k) = singular_values self \<and>
            domain (select_top_basis self k) = domain self \<and>
            fns (select_top_basis self k) = fns self \<and>
            dx (select_top_basis self k) = dx self \<and>
            U (select_top_basis self k) = U self \<and>
            S (select_top_basis self k) = S self \<and>
            n_basis (select_top_basis self k) = k \<and>
            get_basis (select_top_basis self k) =
              divide_scalar (slice_columns (U self) k) (sqrt (dx self))) \<and>
         (\<forall>k. 1 \<le> k \<and> k \<le> int (ncols (U self)) \<longrightarrow>
            ncols (get_basis (select_top_basis self k)) = nat k \<and>
            (get_basis (select_top_basis self k) = slice_columns (get_basis self) k \<longleftrightarrow>
               k \<le> int (ncols (get_basis self)))) \<and>
         ncols (get_basis self) = slice_stop (ncols (U self)) nb \<and>
         (0 \<le> nb \<longrightarrow> int (ncols (get_basis self)) = min nb (int (ncols (U self))))"
proof (intro conjI allI impI)
  note b = init_basis(1)[OF assms(1)]
  show cols: "ncols (get_basis self) = slice_stop (ncols (U self)) nb"
    unfolding get_basis_def b by (simp add: divide_scalar_def slice_columns_def)
  show "int (ncols (get_basis self)) = min nb (int (ncols (U self)))" if "0 \<le> nb"
    unfolding cols using that by (auto simp: slice_stop_def)
  fix k :: int
  show new: "get_basis (select_top_basis self k) =
      divide_scalar (slice_columns (U self) k) (sqrt (dx self))"
    by (simp add: get_basis_def select_top_basis_def)
  show "singular_values (select_top_basis self k) = singular_values self"
    "domain (select_top_basis self k) = domain self"
    "fns (select_top_basis self k) = fns self"
    "dx (select_top_basis self k) = dx self"
    "U (select_top_basis self k) = U self"
    "S (select_top_basis self k) = S self"
    "n_basis (select_top_basis self k) = k"
    by (simp_all add: singular_values_def select_top_basis_def)
  assume k: "1 \<le> k \<and> k \<le> int (ncols (U self))"
  then have sk: "slice_stop (ncols (U self)) k = nat k"
    by (auto simp: slice_stop_pos)
  show nk: "ncols (get_basis (select_top_basis self k)) = nat k"
    unfolding new by (simp add: divide_scalar_def slice_columns_def sk)
  show "get_basis (select_top_basis self k) = slice_columns (get_basis self) k \<longleftrightarrow>
      k \<le> int (ncols (get_basis self))"
  proof
    assume "k \<le> int (ncols (get_basis self))"
    then have "k \<le> int (slice_stop (ncols (U self)) nb)" using cols by simp
    from slice_columns_divide_scalar[where A = "U self" and c = "sqrt (dx self)", OF _ this] k
    have "slice_columns (get_basis self) k =
        divide_scalar (slice_columns (U self) k) (sqrt (dx self))"
      unfolding get_basis_def b by simp
    with new show "get_basis (select_top_basis self k) = slice_columns (get_basis self) k"
      by simp
  next
    assume eq: "get_basis (select_top_basis self k) = slice_columns (get_basis self) k"
    have "ncols (slice_columns (get_basis self) k) = min (ncols (get_basis self)) (nat k)"
      using k by (simp add: slice_columns_def slice_stop_pos)
    with eq nk have "nat k \<le> ncols (get_basis self)" by simp
    with k show "k \<le> int (ncols (get_basis self))" by simp
  qed
qed

text \<open>
  On the example object constructed with \<open>n_basis = 2\<close>: truncating to one column gives
  the first column of the original basis and leaves the singular values alone.
\<close>

theorem select_top_basis_truncation_witness:
  "get_basis (select_top_basis (example_space 2) 1) = slice_columns (get_basis (example_space 2)) 1 \<and>
   ncols (get_basis (select_top_basis (example_space 2) 1)) = 1 \<and>
   singular_values (select_top_basis (example_space 2) 1) = [1, 1] \<and>
   U (select_top_basis (example_space 2) 1) = \<lparr>nrows = 2, ncols = 2, rows = [[1, 0], [0, 1]]\<rparr>"
proof -
  have i: "init svd_of_identity indicator_fn 1 [fixed_dist [- 1, 0]] 2 2 1 1 0 =
     (Inr (example_space 2), Suc 0)"
    by (rule init_example)
  note t = select_top_basis_truncation[OF i]
  have h: "(1 :: int) \<le> 1 \<and> (1 :: int) \<le> int (ncols (U (example_space 2)))"
    by (simp add: example_space_def)
  have v: "singular_values (example_space 2) = [1, 1]"
    "U (example_space 2) = \<lparr>nrows = 2, ncols = 2, rows = [[1, 0], [0, 1]]\<rparr>"
    by (simp_all add: singular_values_def example_space_def)
  from t[THEN conjunct2, THEN conjunct2, THEN conjunct2, rule_format]
  have c: "int (ncols (get_basis (example_space 2))) = 2"
    by (simp add: example_space_def)
  note r = t[THEN conjunct2, THEN conjunct1, rule_format, OF h]
  from r[THEN conjunct1]
  have a1: "ncols (get_basis (select_top_basis (example_space 2) 1)) = 1"
    by simp
  from r[THEN conjunct2] c
  have a2: "get_basis (select_top_basis (example_space 2) 1) =
       slice_columns (get_basis (example_space 2)) 1"
    by simp
  note a = a1 a2
  from t[THEN conjunct1, rule_format, of 1] v
  have f: "singular_values (select_top_basis (example_space 2) 1) = [1, 1]"
    "U (select_top_basis (example_space 2) 1) = \<lparr>nrows = 2, ncols = 2, rows = [[1, 0], [0, 1]]\<rparr>"
    by simp_all
  from a1 a2 f show ?thesis by blast
qed
section \<open>uniform_cube\<close>

lemma length_unravel_index: "length (unravel_index s t) = length s"
  by (induction s arbitrary: t) auto

lemma unravel_index_less:
  "t < prod_list s \<Longrightarrow> i < length s \<Longrightarrow> unravel_index s t ! i < s ! i"
proof (induction s arbitrary: t i)
  case Nil
  then show ?case by simp
next
  case (Cons a ss)
  from Cons.prems(1) have pos: "0 < prod_list ss"
    by (cases "prod_list ss = 0") auto
  show ?case
  proof (cases i)
    case 0
    from Cons.prems(1) have "t div prod_list ss < a"
      by (simp add: less_mult_imp_div_less)
    with 0 show ?thesis by simp
  next
    case (Suc j)
    with Cons.prems(2) have j: "j < length ss" by simp
    have "t mod prod_list ss < prod_list ss" using pos by simp
    from Cons.IH[OF this j] Suc show ?thesis by simp
  qed
qed

lemma mesh_axis_less: "b < k \<Longrightarrow> mesh_axis k b < k"
  by (auto simp: mesh_axis_def)

lemma mesh_shape_replicate: "mesh_shape (replicate k axis) = replicate k (length axis)"
  by (auto simp: mesh_shape_def mesh_axis_less list_eq_iff_nth_eq)

lemma prod_mesh_shape_replicate: "prod_list (mesh_shape (replicate k axis)) = length axis ^ k"
  by (simp add: mesh_shape_replicate)

lemma meshgrid_replicate:
  "map ravel (meshgrid (replicate k axis)) =
     map (\<lambda>a. map (\<lambda>t. axis ! (unravel_index (replicate k (length axis)) t ! mesh_axis k a))
                   [0..<length axis ^ k])
         [0..<k]"
  by (simp add: meshgrid_def ravel_def mesh_shape_replicate comp_def)

lemma vstack_mesh:
  assumes "0 < k"
  shows "vstack (map ravel (meshgrid (replicate k axis))) =
     Inr \<lparr>nrows = k, ncols = length axis ^ k, rows = map ravel (meshgrid (replicate k axis))\<rparr>"
proof -
  let ?R = "map ravel (meshgrid (replicate k axis))"
  have len: "length ?R = k" by (simp add: meshgrid_def)
  have each: "\<forall>b\<in>set ?R. length b = length axis ^ k"
    unfolding meshgrid_replicate by auto
  from len assms obtain a rest where R: "?R = a # rest" by (cases ?R) auto
  then have a: "length a = length axis ^ k" using each by (metis list.set_intros(1))
  have "list_all (\<lambda>b. length b = length a) ?R"
    using each a by (simp add: list_all_iff)
  then show ?thesis
    unfolding vstack_def using R len a by (simp del: map_map)
qed

lemma mesh_entries:
  "\<forall>row\<in>set (map ravel (meshgrid (replicate k axis))). set row \<subseteq> set axis"
proof -
  have "axis ! (unravel_index (replicate k (length axis)) t ! mesh_axis k a) \<in> set axis"
    if "a < k" "t < length axis ^ k" for a t
  proof -
    have "unravel_index (replicate k (length axis)) t ! mesh_axis k a
            < replicate k (length axis) ! mesh_axis k a"
      by (rule unravel_index_less) (use that in \<open>simp_all add: mesh_axis_less\<close>)
    then have "unravel_index (replicate k (length axis)) t ! mesh_axis k a < length axis"
      using that by (simp add: mesh_axis_less)
    then show ?thesis by simp
  qed
  then show ?thesis
    unfolding meshgrid_replicate by auto
qed

lemma arange_ticks: "d \<noteq> 0 \<Longrightarrow> arange (- radius) radius d = Inr (ticks radius d)"
  by (simp add: arange_def ticks_def)

lemma length_ticks: "length (ticks radius d) = nat \<lceil>2 * radius / d\<rceil>"
  by (simp add: ticks_def)

lemma ticks_range:
  assumes "0 < d" "x \<in> set (ticks radius d)"
  shows "- radius \<le> x \<and> x < radius"
proof -
  from assms(2) obtain i where i: "i < nat \<lceil>2 * radius / d\<rceil>" and x: "x = - radius + real i * d"
    by (auto simp: ticks_def)
  from i have "int i < \<lceil>2 * radius / d\<rceil>" by simp
  then have "real i < 2 * radius / d" by (simp add: less_ceiling_iff)
  then have "real i * d < 2 * radius" using assms(1) by (simp add: pos_less_divide_eq)
  moreover have "0 \<le> real i * d" using assms(1) by simp
  ultimately show ?thesis using x by simp
qed

lemma ceiling_round: "round x \<le> \<lceil>x\<rceil> \<and> \<lceil>x\<rceil> \<le> round x + 1" for x :: real
  unfolding round_def by linarith

lemma uniform_cube_1:
  "d \<noteq> 0 \<Longrightarrow> uniform_cube 1 radius d = Inr (reshape_column (ticks radius d))"
  by (simp add: uniform_cube_def arange_ticks)

lemma uniform_cube_mesh:
  "d \<noteq> 0 \<Longrightarrow> 2 \<le> k \<Longrightarrow>
     uniform_cube k radius d =
       Inr \<lparr>nrows = k, ncols = length (ticks radius d) ^ k,
            rows = map ravel (meshgrid (replicate k (ticks radius d)))\<rparr>"
  by (simp add: uniform_cube_def arange_ticks vstack_mesh)

lemma meshgrid_replicate_indices:
  "length axis = n \<Longrightarrow>
   map ravel (meshgrid (replicate k axis)) =
     map (\<lambda>a. map ((!) axis) (map (\<lambda>t. unravel_index (replicate k n) t ! mesh_axis k a)
                                    [0..<n ^ k]))
         [0..<k]"
  unfolding meshgrid_replicate by (simp add: comp_def)

lemma upt_two: "[0..<2] = [0, 1]"
  by (simp add: upt_conv_Cons)

lemma mesh_indices_two:
  "map (\<lambda>t. unravel_index (replicate 2 2) t ! mesh_axis 2 0) [0..<2 ^ 2] = [0, 1, 0, 1]"
  "map (\<lambda>t. unravel_index (replicate 2 2) t ! mesh_axis 2 1) [0..<2 ^ 2] = [0, 0, 1, 1]"
  by code_simp+

lemma ticks_unit: "ticks 1 1 = [- 1, 0]"
  by (simp add: ticks_def upt_conv_Cons)

text \<open>
  C2 (the code at \<open>domain_dim = 2, radius = 1, d = 1\<close>). The axis has the two ticks \<open>-1\<close> and
  \<open>0\<close>, so the mesh has four points. The result has shape \<open>(2, 4)\<close>: one row per coordinate
  and one column per grid point, not one row per grid point.
\<close>

theorem uniform_cube_two_dimensions:
  "uniform_cube 2 1 1 =
     Inr \<lparr>nrows = 2, ncols = 4, rows = [[- 1, 0, - 1, 0], [- 1, - 1, 0, 0]]\<rparr>"
proof -
  have len: "length [- 1, 0 :: real] = 2" by simp
  have "map ravel (meshgrid (replicate 2 [- 1, 0 :: real])) =
      [map ((!) [- 1, 0]) [0, 1, 0, 1], map ((!) [- 1, 0]) [0, 0, 1, 1]]"
    unfolding meshgrid_replicate_indices[OF len] upt_two list.map mesh_indices_two ..
  then have r: "map ravel (meshgrid (replicate 2 [- 1, 0 :: real])) =
      [[- 1, 0, - 1, 0], [- 1, - 1, 0, 0]]"
    by simp
  have n: "length (ticks 1 1) = 2"
    by (simp add: length_ticks)
  have "uniform_cube 2 1 1 =
      Inr \<lparr>nrows = 2, ncols = length (ticks 1 1) ^ 2,
           rows = map ravel (meshgrid (replicate 2 (ticks 1 1)))\<rparr>"
    by (rule uniform_cube_mesh) simp_all
  note this[unfolded n, unfolded ticks_unit r]
  then show ?thesis by simp
qed

section \<open>The constructor's volume element\<close>

lemma init_dx:
  assumes "init svd fn domain_dim dist_args n_functions nb d radius s = (Inr self, s')"
  shows "\<exists>A. uniform_cube domain_dim radius d = Inr A \<and> domain self = A \<and>
           dx self = d ^ ncols A"
  using assms
  by (auto simp: init_def split: sum.splits prod.splits)

lemma generate_functions_no_dists:
  "generate_functions fn nf [] s = (Inr (map (func fn []) [0..<nf]), s)"
  by (simp add: generate_functions_def)

lemma values_row_const:
  "values_row (map (func (\<lambda>p ps. Inr c) []) ks) p = Inr (map (\<lambda>k. c) ks)"
  by (induction ks) (simp_all add: func_def)

lemma values_rows_const:
  "values_rows (map (func (\<lambda>p ps. Inr c) []) ks) pts = Inr (map (\<lambda>p. map (\<lambda>k. c) ks) pts)"
  by (induction pts) (simp_all add: values_row_const)

text \<open>
  The constructor on a constant base function and no distributions: it fails only when
  the grid or the decomposition does.
\<close>

lemma init_const:
  assumes "uniform_cube domain_dim radius d = Inr A"
  shows "init svd (\<lambda>p ps. Inr c) domain_dim [] nf nb d radius s =
     (case svd \<lparr>nrows = length (rows A), ncols = nf,
                rows = map (\<lambda>p. map (\<lambda>k. c) [0..<nf]) (rows A)\<rparr> of
        Inl e \<Rightarrow> (Inl e, s)
      | Inr (u, sv, v) \<Rightarrow>
          (Inr \<lparr>domain = A,
                fns = \<lparr>nrows = length (rows A), ncols = nf,
                       rows = map (\<lambda>p. map (\<lambda>k. c) [0..<nf]) (rows A)\<rparr>,
                dx = d ^ ncols A, n_basis = nb, U = u, S = sv,
                basis = divide_scalar (slice_columns u nb) (sqrt (d ^ ncols A))\<rparr>, s))"
  by (simp add: init_def assms generate_functions_no_dists function_values_def
      values_rows_const)

text \<open>
  C1 (the code at \<open>domain_dim = 2, d = 0.5, radius = 1\<close>, with the constant base function 1,
  one function and any decomposition routine). The axis has 4 ticks and the grid array has
  shape \<open>(2, 16)\<close>, so \<open>domain.shape[1]\<close> is 16 and the constructor stores
  \<open>dx = 0.5 ** 16\<close>, not \<open>0.5 ** 2\<close>. The constructor can fail here only where \<open>svd\<close> fails.
\<close>

theorem init_dx_two_dimensions:
  "(case init svd (\<lambda>p ps. Inr 1) 2 [] 1 1 (1 / 2) 1 s of
      (Inl e, s') \<Rightarrow> (\<exists>V. svd V = Inl e)
    | (Inr self, s') \<Rightarrow>
        nrows (domain self) = 2 \<and> ncols (domain self) = 16 \<and>
        dx self = (1 / 2) ^ 16 \<and> dx self \<noteq> (1 / 2) ^ 2)"
proof -
  have n: "length (ticks 1 (1 / 2)) = 4"
    by (simp add: length_ticks)
  have "uniform_cube 2 1 (1 / 2) =
      Inr \<lparr>nrows = 2, ncols = length (ticks 1 (1 / 2)) ^ 2,
           rows = map ravel (meshgrid (replicate 2 (ticks 1 (1 / 2))))\<rparr>"
    by (rule uniform_cube_mesh) simp_all
  note cube = this[unfolded n]
  have ne: "(1 / 2 :: real) ^ 16 \<noteq> (1 / 2) ^ 2"
    by (simp add: power_one_over)
  show ?thesis
    unfolding init_const[OF cube]
    using ne by (auto split: sum.splits)
qed

section \<open>The size, the points and the range of the grid\<close>

lemma arange_rounded_id: "arange_rounded (\<lambda>x. x) start stop step = arange start stop step"
  by (auto simp: arange_rounded_def arange_def Let_def)

lemma uniform_cube_rounded_id:
  "uniform_cube_rounded (\<lambda>x. x) domain_dim radius d = uniform_cube domain_dim radius d"
  by (simp add: uniform_cube_rounded_def uniform_cube_def arange_rounded_id)

lemma arange_rounded_length:
  "step \<noteq> 0 \<Longrightarrow>
     \<exists>axis. arange_rounded fl start stop step = Inr axis \<and>
            length axis = nat \<lceil>fl (fl (stop - start) / step)\<rceil>"
  by (simp add: arange_rounded_def Let_def)

text \<open>Distinct flat positions have distinct multi-indices.\<close>

lemma unravel_index_inj:
  "t < prod_list s \<Longrightarrow> t' < prod_list s \<Longrightarrow> unravel_index s t = unravel_index s t' \<Longrightarrow> t = t'"
proof (induction s arbitrary: t t')
  case Nil
  then show ?case by simp
next
  case (Cons a ss)
  from Cons.prems(1) have pos: "0 < prod_list ss"
    by (cases "prod_list ss = 0") auto
  from Cons.prems(3) have dv: "t div prod_list ss = t' div prod_list ss"
    and un: "unravel_index ss (t mod prod_list ss) = unravel_index ss (t' mod prod_list ss)"
    by simp_all
  have "t mod prod_list ss = t' mod prod_list ss"
    by (rule Cons.IH[OF _ _ un]) (use pos in simp_all)
  with dv show ?case
    by (metis div_mult_mod_eq)
qed

lemma mesh_axis_involution: "mesh_axis k (mesh_axis k a) = a"
  by (auto simp: mesh_axis_def)

text \<open>
  The index tuple of the point at flat position \<open>t\<close> of the mesh of \<open>k\<close> copies of an axis of
  \<open>n\<close> ticks: coordinate \<open>a\<close> of the point is tick number \<open>mesh_index k n t ! a\<close>.
\<close>

lemma mesh_index_inj:
  assumes "t < n ^ k" and "t' < n ^ k"
    and "map (\<lambda>a. unravel_index (replicate k n) t ! mesh_axis k a) [0..<k] =
         map (\<lambda>a. unravel_index (replicate k n) t' ! mesh_axis k a) [0..<k]"
  shows "t = t'"
proof -
  have eq: "unravel_index (replicate k n) t ! mesh_axis k a =
            unravel_index (replicate k n) t' ! mesh_axis k a" if "a < k" for a
    using assms(3) that by (auto simp: list_eq_iff_nth_eq)
  have "unravel_index (replicate k n) t = unravel_index (replicate k n) t'"
  proof (rule nth_equalityI)
    show "length (unravel_index (replicate k n) t) = length (unravel_index (replicate k n) t')"
      by (simp add: length_unravel_index)
    fix b assume "b < length (unravel_index (replicate k n) t)"
    then have b: "b < k" by (simp add: length_unravel_index)
    from eq[OF mesh_axis_less[OF b]]
    show "unravel_index (replicate k n) t ! b = unravel_index (replicate k n) t' ! b"
      by (simp add: mesh_axis_involution)
  qed
  with assms(1,2) show ?thesis
    by (intro unravel_index_inj[of t "replicate k n" t']) simp_all
qed

lemma index_tuples_complete:
  assumes "distinct I" and "length I = n ^ k"
    and "set I \<subseteq> {idx. length idx = k \<and> set idx \<subseteq> {..<n}}"
  shows "set I = {idx. length idx = k \<and> set idx \<subseteq> {..<(n :: nat)}}"
proof -
  have eq: "{idx. length idx = k \<and> set idx \<subseteq> {..<n}} = {idx. set idx \<subseteq> {..<n} \<and> length idx = k}"
    by auto
  have fin: "finite {idx. length idx = k \<and> set idx \<subseteq> {..<n}}"
    unfolding eq by (rule finite_lists_length_eq) simp
  have card: "card {idx. length idx = k \<and> set idx \<subseteq> {..<n}} = n ^ k"
    unfolding eq by (simp add: card_lists_length_eq)
  have "card (set I) = n ^ k"
    using assms(1,2) by (simp add: distinct_card)
  with card_subset_eq[OF fin assms(3)] card show ?thesis by simp
qed

text \<open>The column grid of dimension one: its rows are the points, one tick each.\<close>

lemma column_grid_points:
  "\<exists>I. distinct I \<and> set I = {idx. length idx = 1 \<and> set idx \<subseteq> {..<length axis}} \<and>
        length I = length axis ^ 1 \<and>
        rows (reshape_column axis) = map (map ((!) axis)) I"
proof -
  let ?I = "map (\<lambda>i. [i]) [0..<length axis]"
  have d: "distinct ?I" by (simp add: distinct_map inj_on_def)
  have l: "length ?I = length axis ^ 1" by simp
  have "set ?I \<subseteq> {idx. length idx = 1 \<and> set idx \<subseteq> {..<length axis}}" by auto
  from index_tuples_complete[OF d l this]
  have s: "set ?I = {idx. length idx = 1 \<and> set idx \<subseteq> {..<length axis}}" .
  have "map (\<lambda>x. [x]) axis = map (\<lambda>x. [x]) (map ((!) axis) [0..<length axis])"
    by (simp only: map_nth)
  also have "\<dots> = map (map ((!) axis)) ?I"
    by (simp add: comp_def)
  finally have r: "rows (reshape_column axis) = map (map ((!) axis)) ?I"
    by (simp add: reshape_column_def)
  from d s l r show ?thesis by blast
qed

text \<open>
  The stacked meshes of dimension \<open>k\<close>: the columns are the points, every tuple of ticks
  exactly once.
\<close>

lemma mesh_grid_points:
  assumes "A = \<lparr>nrows = k, ncols = length axis ^ k,
               rows = map ravel (meshgrid (replicate k axis))\<rparr>"
  shows "\<exists>I. distinct I \<and> set I = {idx. length idx = k \<and> set idx \<subseteq> {..<length axis}} \<and>
        length I = length axis ^ k \<and>
        rows (mat_T A) = map (map ((!) axis)) I"
proof -
  let ?n = "length axis"
  let ?ix = "\<lambda>t. map (\<lambda>a. unravel_index (replicate k ?n) t ! mesh_axis k a) [0..<k]"
  let ?I = "map ?ix [0..<?n ^ k]"
  have "inj_on ?ix (set [0..<?n ^ k])"
  proof (rule inj_onI)
    fix t t' assume "t \<in> set [0..<?n ^ k]" "t' \<in> set [0..<?n ^ k]" "?ix t = ?ix t'"
    then show "t = t'" by (intro mesh_index_inj[of t ?n k t']) simp_all
  qed
  then have d: "distinct ?I"
    by (simp add: distinct_map)
  have l: "length ?I = ?n ^ k" by simp
  have lt: "unravel_index (replicate k ?n) t ! mesh_axis k a < ?n" if "a < k" "t < ?n ^ k" for a t
  proof -
    have "unravel_index (replicate k ?n) t ! mesh_axis k a < replicate k ?n ! mesh_axis k a"
      by (rule unravel_index_less) (use that in \<open>simp_all add: mesh_axis_less\<close>)
    then show ?thesis using that by (simp add: mesh_axis_less)
  qed
  have "set ?I \<subseteq> {idx. length idx = k \<and> set idx \<subseteq> {..<?n}}"
    using lt by auto
  from index_tuples_complete[OF d l this]
  have s: "set ?I = {idx. length idx = k \<and> set idx \<subseteq> {..<?n}}" .
  have r: "rows (mat_T A) = map (map ((!) axis)) ?I"
    unfolding assms mat_T_def column_def meshgrid_replicate
    by (simp add: comp_def)
  from d s l r show ?thesis by blast
qed

lemma uniform_cube_rounded_points:
  assumes "1 \<le> k" and "d \<noteq> 0"
  shows "\<exists>A axis I.
      uniform_cube_rounded fl k radius d = Inr A \<and>
      arange_rounded fl (- radius) radius d = Inr axis \<and>
      length axis = nat \<lceil>fl (fl (radius - (- radius)) / d)\<rceil> \<and>
      well_formed A \<and> distinct I \<and>
      set I = {idx. length idx = k \<and> set idx \<subseteq> {..<length axis}} \<and>
      length I = length axis ^ k \<and>
      ((nrows A = length I \<and> ncols A = k \<and> rows A = map (map ((!) axis)) I) \<or>
       (nrows A = k \<and> ncols A = length I \<and> rows (mat_T A) = map (map ((!) axis)) I))"
proof -
  from arange_rounded_length[OF assms(2), of fl "- radius" radius] obtain axis where
    ax: "arange_rounded fl (- radius) radius d = Inr axis" and
    len: "length axis = nat \<lceil>fl (fl (radius - (- radius)) / d)\<rceil>"
    by blast
  show ?thesis
  proof (cases "k = 1")
    case True
    let ?A = "reshape_column axis"
    have cube: "uniform_cube_rounded fl k radius d = Inr ?A"
      by (simp add: uniform_cube_rounded_def True ax)
    have wf: "well_formed ?A"
      by (simp add: well_formed_def reshape_column_def list_all_iff)
    from column_grid_points[of axis] obtain I where I:
      "distinct I" "set I = {idx. length idx = 1 \<and> set idx \<subseteq> {..<length axis}}"
      "length I = length axis ^ 1" "rows ?A = map (map ((!) axis)) I"
      by blast
    have sh: "nrows ?A = length I" "ncols ?A = k"
      using I(3) True by (simp_all add: reshape_column_def)
    from cube ax len wf I sh True show ?thesis
      by (intro exI[of _ ?A] exI[of _ axis] exI[of _ I]) simp
  next
    case False
    with assms(1) have k: "0 < k" by simp
    let ?A = "\<lparr>nrows = k, ncols = length axis ^ k,
               rows = map ravel (meshgrid (replicate k axis))\<rparr>"
    have cube: "uniform_cube_rounded fl k radius d = Inr ?A"
      using False by (simp add: uniform_cube_rounded_def ax vstack_mesh[OF k])
    have "\<forall>r\<in>set (map ravel (meshgrid (replicate k axis))). length r = length axis ^ k"
      unfolding meshgrid_replicate by auto
    moreover have "length (map ravel (meshgrid (replicate k axis))) = k"
      by (simp add: meshgrid_def)
    ultimately have wf: "well_formed ?A"
      by (simp add: well_formed_def list_all_iff del: map_map)
    from mesh_grid_points[OF refl, of k axis] obtain I where I:
      "distinct I" "set I = {idx. length idx = k \<and> set idx \<subseteq> {..<length axis}}"
      "length I = length axis ^ k" "rows (mat_T ?A) = map (map ((!) axis)) I"
      by blast
    have sh: "nrows ?A = k" "ncols ?A = length I"
      using I(3) by simp_all
    from cube ax len wf I sh show ?thesis
      by (intro exI[of _ ?A] exI[of _ axis] exI[of _ I]) (simp del: map_map)
  qed
qed

lemma uniform_cube_range:
  assumes "1 \<le> k" and "0 < d"
  shows "\<exists>A. uniform_cube k radius d = Inr A \<and>
           (\<forall>row\<in>set (rows A). \<forall>x\<in>set row. - radius \<le> x \<and> x < radius)"
proof (cases "k = 1")
  case True
  have "uniform_cube k radius d = Inr (reshape_column (ticks radius d))"
    unfolding True by (rule uniform_cube_1) (use assms(2) in simp)
  moreover have "\<forall>row\<in>set (rows (reshape_column (ticks radius d))).
      \<forall>x\<in>set row. - radius \<le> x \<and> x < radius"
    using ticks_range[OF assms(2)] by (auto simp: reshape_column_def)
  ultimately show ?thesis by blast
next
  case False
  with assms(1) have k: "2 \<le> k" by simp
  let ?R = "map ravel (meshgrid (replicate k (ticks radius d)))"
  have cube: "uniform_cube k radius d =
      Inr \<lparr>nrows = k, ncols = length (ticks radius d) ^ k, rows = ?R\<rparr>"
    by (rule uniform_cube_mesh[OF _ k]) (use assms(2) in simp)
  have "\<forall>row\<in>set ?R. \<forall>x\<in>set row. - radius \<le> x \<and> x < radius"
    using mesh_entries[of k "ticks radius d"] ticks_range[OF assms(2)]
    by blast
  with cube show ?thesis by (simp del: map_map)
qed

text \<open>
  C8 (as stated). With \<open>domain_dim = 2, radius = 9/8, d = 1\<close> the axis has the three ticks
  \<open>-9/8, -1/8, 7/8\<close> and the grid has 9 points, while \<open>round(2 * radius / d) ^ 2 = 4\<close>: the
  total differs from the claimed count by 5, not by at most one.
\<close>

theorem uniform_cube_count_counterexample:
  "(0 :: real) < 9 / 8 \<and> (0 :: real) < 1 \<and> (1 :: real) < 2 * (9 / 8) \<and>
   map_sum id (\<lambda>A. (nrows A, ncols A)) (uniform_cube 2 (9 / 8) 1) = Inr (2, 9) \<and>
   round (2 * (9 / 8) / 1 :: real) ^ 2 = 4"
proof -
  have n: "length (ticks (9 / 8) 1) = 3"
    by (simp add: length_ticks)
  have "uniform_cube 2 (9 / 8) 1 =
      Inr \<lparr>nrows = 2, ncols = length (ticks (9 / 8) 1) ^ 2,
           rows = map ravel (meshgrid (replicate 2 (ticks (9 / 8) 1)))\<rparr>"
    by (rule uniform_cube_mesh) simp_all
  note cube = this[unfolded n]
  have r: "round (2 * (9 / 8) / 1 :: real) = 2"
    by (simp add: round_def)
  show ?thesis
    unfolding cube r by simp
qed

text \<open>
  C8 (amended). For every \<open>domain_dim \<ge> 1\<close>, \<open>radius > 0\<close> and \<open>0 < d < 2 * radius\<close>, and
  whatever the rounding of the floating-point operations: \<open>uniform_cube\<close> returns a
  well-formed array that holds the grid of \<open>n ^ domain_dim\<close> points of \<open>domain_dim\<close>
  coordinates each, namely every tuple of ticks of the axis exactly once, the points being
  the rows or the columns of the array. Here \<open>n = \<lceil>q\<rceil>\<close> is the number of ticks of the axis,
  \<open>q\<close> being the quotient \<open>(radius - (-radius)) / d\<close> as computed, and \<open>n\<close> is \<open>round(q)\<close> or one
  more, on each axis. In exact arithmetic the ticks are \<open>-radius + i * d\<close> and every coordinate
  lies in \<open>[-radius, radius)\<close>. For \<open>domain_dim = 1, radius = 1, d = 0.1\<close> the grid is then the
  column of the 20 points \<open>-1, -0.9, ..., 0.9\<close>, and a constructor call with these arguments
  stores \<open>dx = 0.1\<close>.
\<close>

theorem uniform_cube_grid:
  assumes "1 \<le> domain_dim" and "0 < radius" and "0 < d" and "d < 2 * radius"
  shows "(\<forall>fl. \<exists>A axis I.
            uniform_cube_rounded fl domain_dim radius d = Inr A \<and>
            arange_rounded fl (- radius) radius d = Inr axis \<and>
            length axis = nat \<lceil>fl (fl (radius - (- radius)) / d)\<rceil> \<and>
            round (fl (fl (radius - (- radius)) / d)) \<le> \<lceil>fl (fl (radius - (- radius)) / d)\<rceil> \<and>
            \<lceil>fl (fl (radius - (- radius)) / d)\<rceil> \<le> round (fl (fl (radius - (- radius)) / d)) + 1 \<and>
            well_formed A \<and> distinct I \<and>
            set I = {idx. length idx = domain_dim \<and> set idx \<subseteq> {..<length axis}} \<and>
            length I = length axis ^ domain_dim \<and>
            ((nrows A = length I \<and> ncols A = domain_dim \<and> rows A = map (map ((!) axis)) I) \<or>
             (nrows A = domain_dim \<and> ncols A = length I \<and>
              rows (mat_T A) = map (map ((!) axis)) I))) \<and>
         uniform_cube_rounded (\<lambda>x. x) domain_dim radius d = uniform_cube domain_dim radius d \<and>
         arange_rounded (\<lambda>x. x) (- radius) radius d =
           Inr (map (\<lambda>i. - radius + real i * d) [0..<nat \<lceil>2 * radius / d\<rceil>]) \<and>
         (\<exists>A. uniform_cube domain_dim radius d = Inr A \<and>
            (\<forall>row\<in>set (rows A). \<forall>x\<in>set row. - radius \<le> x \<and> x < radius)) \<and>
         uniform_cube 1 1 (1 / 10) =
           Inr \<lparr>nrows = 20, ncols = 1, rows = map (\<lambda>i. [- 1 + real i / 10]) [0..<20]\<rparr> \<and>
         (\<forall>svd fn dist_args n_functions nb s self s'.
            init svd fn 1 dist_args n_functions nb (1 / 10) 1 s = (Inr self, s') \<longrightarrow>
              dx self = 1 / 10)"
proof (intro conjI)
  have d0: "d \<noteq> 0" using assms(3) by simp
  show "\<forall>fl. \<exists>A axis I.
            uniform_cube_rounded fl domain_dim radius d = Inr A \<and>
            arange_rounded fl (- radius) radius d = Inr axis \<and>
            length axis = nat \<lceil>fl (fl (radius - (- radius)) / d)\<rceil> \<and>
            round (fl (fl (radius - (- radius)) / d)) \<le> \<lceil>fl (fl (radius - (- radius)) / d)\<rceil> \<and>
            \<lceil>fl (fl (radius - (- radius)) / d)\<rceil> \<le> round (fl (fl (radius - (- radius)) / d)) + 1 \<and>
            well_formed A \<and> distinct I \<and>
            set I = {idx. length idx = domain_dim \<and> set idx \<subseteq> {..<length axis}} \<and>
            length I = length axis ^ domain_dim \<and>
            ((nrows A = length I \<and> ncols A = domain_dim \<and> rows A = map (map ((!) axis)) I) \<or>
             (nrows A = domain_dim \<and> ncols A = length I \<and>
              rows (mat_T A) = map (map ((!) axis)) I))"
  proof
    fix fl :: "real \<Rightarrow> real"
    let ?q = "fl (fl (radius - (- radius)) / d)"
    from uniform_cube_rounded_points[OF assms(1) d0, of fl radius] ceiling_round[of ?q]
    show "\<exists>A axis I.
            uniform_cube_rounded fl domain_dim radius d = Inr A \<and>
            arange_rounded fl (- radius) radius d = Inr axis \<and>
            length axis = nat \<lceil>?q\<rceil> \<and>
            round ?q \<le> \<lceil>?q\<rceil> \<and> \<lceil>?q\<rceil> \<le> round ?q + 1 \<and>
            well_formed A \<and> distinct I \<and>
            set I = {idx. length idx = domain_dim \<and> set idx \<subseteq> {..<length axis}} \<and>
            length I = length axis ^ domain_dim \<and>
            ((nrows A = length I \<and> ncols A = domain_dim \<and> rows A = map (map ((!) axis)) I) \<or>
             (nrows A = domain_dim \<and> ncols A = length I \<and>
              rows (mat_T A) = map (map ((!) axis)) I))"
      by blast
  qed
  show "uniform_cube_rounded (\<lambda>x. x) domain_dim radius d = uniform_cube domain_dim radius d"
    by (rule uniform_cube_rounded_id)
  show "arange_rounded (\<lambda>x. x) (- radius) radius d =
      Inr (map (\<lambda>i. - radius + real i * d) [0..<nat \<lceil>2 * radius / d\<rceil>])"
    using assms(3) by (simp add: arange_rounded_id arange_def)
  show "\<exists>A. uniform_cube domain_dim radius d = Inr A \<and>
      (\<forall>row\<in>set (rows A). \<forall>x\<in>set row. - radius \<le> x \<and> x < radius)"
    by (rule uniform_cube_range[OF assms(1,3)])
  have t: "ticks 1 (1 / 10) = map (\<lambda>i. - 1 + real i / 10) [0..<20]"
    by (simp add: ticks_def)
  have "uniform_cube 1 1 (1 / 10) = Inr (reshape_column (ticks 1 (1 / 10)))"
    by (rule uniform_cube_1) simp
  then show c1: "uniform_cube 1 1 (1 / 10) =
      Inr \<lparr>nrows = 20, ncols = 1, rows = map (\<lambda>i. [- 1 + real i / 10]) [0..<20]\<rparr>"
    unfolding t by (simp add: reshape_column_def comp_def)
  show "\<forall>svd fn dist_args n_functions nb s self s'.
      init svd fn 1 dist_args n_functions nb (1 / 10) 1 s = (Inr self, s') \<longrightarrow> dx self = 1 / 10"
  proof (intro allI impI)
    fix svd fn dist_args n_functions nb s self s'
    assume "init svd fn 1 dist_args n_functions nb (1 / 10) 1 s = (Inr self, s')"
    from init_dx[OF this] c1 show "dx self = 1 / 10" by auto
  qed
qed

text \<open>
  The theorem at \<open>domain_dim = 2, radius = 1, d = 1\<close> in exact arithmetic (two ticks, four
  points of two coordinates), and its last part on a constructor call with \<open>d = 0.1\<close>.
\<close>

theorem uniform_cube_grid_witness:
  "(\<exists>A axis. uniform_cube 2 1 1 = Inr A \<and> arange (- 1) 1 1 = Inr axis \<and> length axis = 2 \<and>
        (nrows A = 4 \<and> ncols A = 2 \<or> nrows A = 2 \<and> ncols A = 4)) \<and>
   (\<exists>self. init svd_of_identity (\<lambda>(p :: real list) (ps :: real list). Inr 1) 1 [] 1 1
        (1 / 10) 1 (0 :: nat) = (Inr self, 0) \<and> dx self = 1 / 10)"
proof -
  have h: "1 \<le> (2 :: nat)" "(0 :: real) < 1" "(1 :: real) < 2 * 1" by simp_all
  note grid = uniform_cube_grid[OF h(1) h(2) h(2) h(3)]
  from grid[THEN conjunct1, THEN spec, of "\<lambda>x. x"] obtain A axis I where A:
    "uniform_cube_rounded (\<lambda>x. x) 2 1 1 = Inr A"
    "arange_rounded (\<lambda>x. x) (- 1) 1 1 = Inr axis"
    "length axis = nat \<lceil>(1 - (- 1)) / (1 :: real)\<rceil>"
    "length I = length axis ^ 2"
    "(nrows A = length I \<and> ncols A = 2 \<and> rows A = map (map ((!) axis)) I) \<or>
     (nrows A = 2 \<and> ncols A = length I \<and> rows (mat_T A) = map (map ((!) axis)) I)"
    by blast
  from A(3) have n: "length axis = 2" by simp
  with A(4) have "length I = 4" by simp
  with A(5) have sh: "nrows A = 4 \<and> ncols A = 2 \<or> nrows A = 2 \<and> ncols A = 4" by auto
  from A(1) have c: "uniform_cube 2 1 1 = Inr A"
    by (simp add: uniform_cube_rounded_id)
  from A(2) have a: "arange (- 1) 1 1 = Inr axis"
    by (simp add: arange_rounded_id)
  from c a n sh have part1: "\<exists>A axis. uniform_cube 2 1 1 = Inr A \<and> arange (- 1) 1 1 = Inr axis \<and>
      length axis = 2 \<and> (nrows A = 4 \<and> ncols A = 2 \<or> nrows A = 2 \<and> ncols A = 4)"
    by blast
  note cube = grid[THEN conjunct2, THEN conjunct2, THEN conjunct2, THEN conjunct2, THEN conjunct1]
  note stored = grid[THEN conjunct2, THEN conjunct2, THEN conjunct2, THEN conjunct2,
      THEN conjunct2, rule_format]
  obtain self where i: "init svd_of_identity (\<lambda>(p :: real list) (ps :: real list). Inr 1) 1 [] 1 1
        (1 / 10) 1 (0 :: nat) = (Inr self, 0)"
    unfolding init_const[OF cube] by (simp add: svd_of_identity_def)
  from stored[OF i] i part1 show ?thesis by blast
qed

section \<open>The ticks in double arithmetic\<close>

text \<open>A double is rounded at the exponent that puts its significand between \<open>2\<^sup>5\<^sup>2\<close> and \<open>2\<^sup>5\<^sup>3\<close>.\<close>

lemma round_to_double_at:
  assumes "2 powr of_int (e + 52) \<le> \<bar>x\<bar>" and "\<bar>x\<bar> < 2 powr of_int (e + 53)"
  shows "round_to_double x = of_int (round_half_even (x / 2 powr of_int e)) * 2 powr of_int e"
proof -
  from assms(1) have pos: "0 < \<bar>x\<bar>"
    by (smt (verit) powr_gt_zero)
  have "\<lfloor>log 2 \<bar>x\<bar>\<rfloor> = e + 52"
    using assms pos by (subst floor_log_eq_powr_iff) (simp_all add: algebra_simps)
  with pos show ?thesis
    by (simp add: round_to_double_def)
qed

lemma round_to_double_neg_exp:
  assumes "2 ^ 52 \<le> \<bar>x\<bar> * 2 ^ k" and "\<bar>x\<bar> * 2 ^ k < 2 ^ 53"
  shows "round_to_double x = of_int (round_half_even (x * 2 ^ k)) / 2 ^ k"
proof -
  have p: "2 powr of_int (- int k) = 1 / (2 :: real) ^ k"
    by (simp add: powr_minus powr_realpow inverse_eq_divide)
  have q: "2 powr of_int (- int k + n) = 2 ^ n / (2 :: real) ^ k" for n :: nat
  proof -
    have "2 powr of_int (- int k + n) = 2 powr (of_int (- int k)) * (2 :: real) powr real n"
      by (simp add: powr_add[symmetric])
    then show ?thesis
      unfolding p by (simp add: powr_realpow)
  qed
  have q52: "2 powr of_int (- int k + 52) = 2 ^ 52 / (2 :: real) ^ k"
    and q53: "2 powr of_int (- int k + 53) = 2 ^ 53 / (2 :: real) ^ k"
    using q[of 52] q[of 53] by simp_all
  have a: "2 powr of_int (- int k + 52) \<le> \<bar>x\<bar>"
    unfolding q52 using assms(1) by (simp only: pos_divide_le_eq zero_less_power zero_less_numeral)
  have b: "\<bar>x\<bar> < 2 powr of_int (- int k + 53)"
    unfolding q53 using assms(2) by (simp only: pos_less_divide_eq zero_less_power zero_less_numeral)
  have p': "2 powr (- real k) = 1 / (2 :: real) ^ k"
    using p by simp
  from round_to_double_at[OF a b] show ?thesis
    by (simp add: p')
qed


lemma round_half_even_of_int: "round_half_even (of_int n) = n"
  by (simp add: round_half_even_def)

lemma round_to_double_exact:
  assumes "x * 2 ^ k = of_int n" and "2 ^ 52 \<le> \<bar>n\<bar>" and "\<bar>n\<bar> < 2 ^ 53"
  shows "round_to_double x = x"
proof -
  have "\<bar>x\<bar> * 2 ^ k = \<bar>x * 2 ^ k\<bar>" by (simp add: abs_mult)
  also have "\<dots> = of_int \<bar>n\<bar>" using assms(1) by simp
  finally have ab: "\<bar>x\<bar> * 2 ^ k = of_int \<bar>n\<bar>" .
  have a: "2 ^ 52 \<le> \<bar>x\<bar> * 2 ^ k"
    unfolding ab using assms(2) by (metis of_int_le_iff of_int_numeral of_int_power)
  have b: "\<bar>x\<bar> * 2 ^ k < 2 ^ 53"
    unfolding ab using assms(3) by (metis of_int_less_iff of_int_numeral of_int_power)
  have "round_to_double x = of_int n / 2 ^ k"
    unfolding round_to_double_neg_exp[OF a b] assms(1) round_half_even_of_int ..
  also have "\<dots> = x" using assms(1)[symmetric] by simp
  finally show ?thesis .
qed

lemma round_to_double_inexact:
  assumes "2 ^ 52 \<le> \<bar>x\<bar> * 2 ^ k" and "\<bar>x\<bar> * 2 ^ k < 2 ^ 53"
    and "of_int n - 1 / 2 < x * 2 ^ k" and "x * 2 ^ k < of_int n + 1 / 2"
  shows "round_to_double x = of_int n / 2 ^ k"
proof -
  let ?y = "x * 2 ^ k"
  have r: "round ?y = n"
    unfolding round_def using assms(3,4) by linarith
  have "frac ?y \<noteq> 1 / 2"
  proof
    assume h: "frac ?y = 1 / 2"
    then have "?y = of_int \<lfloor>?y\<rfloor> + 1 / 2" by (simp add: frac_def)
    with assms(3,4) have "of_int (n - 1) < (of_int \<lfloor>?y\<rfloor> :: real)"
      and "(of_int \<lfloor>?y\<rfloor> :: real) < of_int n"
      by simp_all
    then have "n - 1 < \<lfloor>?y\<rfloor>" and "\<lfloor>?y\<rfloor> < n"
      by (simp_all only: of_int_less_iff)
    then show False by linarith
  qed
  then have "round_half_even ?y = n"
    by (simp add: round_half_even_def r)
  then show ?thesis
    unfolding round_to_double_neg_exp[OF assms(1,2)] by simp
qed


lemma arange_rounded_nth:
  assumes "step \<noteq> 0" and "arange_rounded fl start stop step = Inr axis"
    and "i < length axis" and "2 \<le> i"
  shows "axis ! i = fl (start + fl (real i * fl (fl (start + step) - start)))"
  using assms by (auto simp: arange_rounded_def Let_def)

text \<open>
  The doubles nearest to 1.12, 0.01 and 0.1, and the operations of \<^verbatim>\<open>np.arange\<close> on them.
\<close>

lemma double_radius: "round_to_double (112 / 100) = 1261007895663739 / 2 ^ 50"
  using round_to_double_inexact[where x = "112 / 100" and k = 52 and n = 5044031582654956]
  by simp

lemma double_d: "round_to_double (1 / 100) = 5764607523034235 / 2 ^ 59"
  using round_to_double_inexact[where x = "1 / 100" and k = 59 and n = 5764607523034235]
  by simp

lemma step_span: "round_to_double (1261007895663739 / 2 ^ 50 - (- (1261007895663739 / 2 ^ 50))) = 1261007895663739 / 2 ^ 49"
  using round_to_double_exact[where x = "1261007895663739 / 2 ^ 50 - (- (1261007895663739 / 2 ^ 50))" and k = 51
      and n = 5044031582654956]
  by simp

lemma step_quotient:
  "round_to_double (1261007895663739 / 2 ^ 49 / (5764607523034235 / 2 ^ 59)) = 7881299347898369 / 2 ^ 45"
  using round_to_double_inexact[where x = "1261007895663739 / 2 ^ 49 / (5764607523034235 / 2 ^ 59)" and k = 45
      and n = 7881299347898369]
  by simp

lemma step_next: "round_to_double (- (1261007895663739 / 2 ^ 50) + 5764607523034235 / 2 ^ 59) = - 4998995586381251 / 2 ^ 52"
  using round_to_double_inexact[where x = "- (1261007895663739 / 2 ^ 50) + 5764607523034235 / 2 ^ 59" and k = 52
      and n = "- 4998995586381251"]
  by simp

lemma step_delta:
  "round_to_double (- 4998995586381251 / 2 ^ 52 - (- (1261007895663739 / 2 ^ 50))) = 45035996273705 / 2 ^ 52"
  using round_to_double_exact[where x = "- 4998995586381251 / 2 ^ 52 - (- (1261007895663739 / 2 ^ 50))" and k = 59
      and n = 5764607523034240]
  by simp

lemma step_product:
  "round_to_double (real 224 * (45035996273705 / 2 ^ 52)) = 315251973915935 / 2 ^ 47"
  using round_to_double_exact[where x = "real 224 * (45035996273705 / 2 ^ 52)" and k = 51
      and n = 5044031582654960]
  by simp

lemma step_tick:
  "round_to_double (- (1261007895663739 / 2 ^ 50) + 315251973915935 / 2 ^ 47) = 1261007895663741 / 2 ^ 50"
  using round_to_double_exact[where x = "- (1261007895663739 / 2 ^ 50) + 315251973915935 / 2 ^ 47" and k = 52
      and n = 5044031582654964]
  by simp

text \<open>
  With \<open>radius\<close> and \<open>d\<close> the doubles nearest to 1.12 and 0.01, rounding every operation to the
  nearest double: the quotient is \<open>224 + 2\<^sup>-\<^sup>4\<^sup>5\<close>, so the axis has 225 ticks, and the last
  one, \<open>start + 224 * delta\<close>, exceeds \<open>radius\<close>. In exact arithmetic on the same two doubles
  every tick is below \<open>radius\<close>.
\<close>

lemma floating_point_stepping:
  "\<exists>axis. arange_rounded round_to_double (- (1261007895663739 / 2 ^ 50)) (1261007895663739 / 2 ^ 50) (5764607523034235 / 2 ^ 59) = Inr axis \<and>
          length axis = 225 \<and> axis ! 224 = 1261007895663741 / 2 ^ 50 \<and>
          1261007895663739 / 2 ^ 50 < axis ! 224"
proof -
  have d0: "5764607523034235 / 2 ^ 59 \<noteq> (0 :: real)" by simp
  from arange_rounded_length[OF d0, of round_to_double "- (1261007895663739 / 2 ^ 50)" "1261007895663739 / 2 ^ 50"]
  obtain axis where ax: "arange_rounded round_to_double (- (1261007895663739 / 2 ^ 50)) (1261007895663739 / 2 ^ 50) (5764607523034235 / 2 ^ 59) = Inr axis"
    and len: "length axis =
      nat \<lceil>round_to_double (round_to_double (1261007895663739 / 2 ^ 50 - (- (1261007895663739 / 2 ^ 50))) / (5764607523034235 / 2 ^ 59))\<rceil>"
    by blast
  have n: "length axis = 225"
    unfolding len step_span step_quotient by simp
  have t: "axis ! 224 =
      round_to_double (- (1261007895663739 / 2 ^ 50) + round_to_double (real 224 *
        round_to_double (round_to_double (- (1261007895663739 / 2 ^ 50) + 5764607523034235 / 2 ^ 59) - (- (1261007895663739 / 2 ^ 50)))))"
    by (rule arange_rounded_nth[OF d0 ax]) (simp_all add: n)
  have v: "axis ! 224 = 1261007895663741 / 2 ^ 50"
    unfolding t step_next step_delta step_product step_tick ..
  have "(1261007895663739 / 2 ^ 50 :: real) < 1261007895663741 / 2 ^ 50" by simp
  with ax n v show ?thesis by simp
qed


lemma double_tenth: "round_to_double (1 / 10) = 3602879701896397 / 2 ^ 55"
  using round_to_double_inexact[where x = "1 / 10" and k = 56 and n = 7205759403792794]
  by simp

lemma scenario_span: "round_to_double (1 - (- 1)) = 2"
  using round_to_double_exact[where x = "1 - (- 1)" and k = 51 and n = 4503599627370496]
  by simp

lemma scenario_quotient: "round_to_double (2 / (3602879701896397 / 2 ^ 55)) = 20"
  using round_to_double_inexact[where x = "2 / (3602879701896397 / 2 ^ 55)" and k = 48
      and n = 5629499534213120]
  by simp

text \<open>
  With \<open>d\<close> the double nearest to 0.1 and \<open>radius = 1\<close> the rounded quotient is exactly 20, so the
  axis has 20 ticks in double arithmetic as well.
\<close>

lemma floating_point_scenario:
  "\<exists>axis. arange_rounded round_to_double (- 1) 1 (3602879701896397 / 2 ^ 55) = Inr axis \<and>
          length axis = 20"
proof -
  have d0: "3602879701896397 / 2 ^ 55 \<noteq> (0 :: real)" by simp
  from arange_rounded_length[OF d0, of round_to_double "- 1" 1]
  obtain axis where
    ax: "arange_rounded round_to_double (- 1) 1 (3602879701896397 / 2 ^ 55) = Inr axis"
    and len: "length axis =
      nat \<lceil>round_to_double (round_to_double (1 - (- 1)) / (3602879701896397 / 2 ^ 55))\<rceil>"
    by blast
  have "length axis = 20"
    unfolding len scenario_span scenario_quotient by simp
  with ax show ?thesis by simp
qed

section \<open>The shape of the signal coefficients\<close>

lemma basis_shape:
  assumes "basis self = divide_scalar (slice_columns (U self) k) c"
    and "0 \<le> k" and "k \<le> int (ncols (U self))"
  shows "nrows (basis self) = nrows (U self)" and "int (ncols (basis self)) = k"
  using assms by (simp_all add: divide_scalar_def slice_columns_def slice_stop_def)

lemma signal_coeffs_vector:
  assumes "length v = nrows (basis self)" and "n_basis self = int (ncols (basis self))"
  shows "\<exists>c. map_sum id (\<lambda>p. times_scalar (Vec p) (dx self)) (dot_vec_mat v (basis self)) =
             Inr (Vec c) \<and>
           signal_coeffs self (Vec v) = Inr (Vec c) \<and> length c = ncols (basis self)"
  using assms
  by (auto simp: signal_coeffs_def dot_vec_mat_def times_scalar_def shape0_def
      reshape_flat_def Let_def)

lemma concat_singleton_rows:
  "length xs = 1 \<Longrightarrow> \<forall>r\<in>set xs. length r = n \<Longrightarrow> length (concat xs) = n"
  by (cases xs) auto

lemma signal_coeffs_batch:
  assumes "nrows A = nrows (basis self)" and "n_basis self = int (ncols (basis self))"
  shows "\<exists>C. map_sum id (\<lambda>P. times_scalar (Mat P) (dx self))
               (dot_mat_mat (mat_T A) (basis self)) = Inr (Mat C) \<and>
           nrows C = ncols A \<and> ncols C = ncols (basis self) \<and> length (rows C) = ncols A \<and>
           (\<forall>r\<in>set (rows C). length r = ncols (basis self)) \<and>
           signal_coeffs self (Mat A) =
             (if nrows C = 1 then Inr (Vec (concat (rows C))) else Inr (Mat C))"
  using assms
  by (intro exI[of _ "\<lparr>nrows = ncols A, ncols = ncols (basis self),
        rows = map (map (\<lambda>x. x * dx self))
                 (map (\<lambda>r. map (\<lambda>j. inner r (column (basis self) j)) [0..<ncols (basis self)])
                      (map (column A) [0..<ncols A]))\<rparr>"])
    (auto simp: signal_coeffs_def dot_mat_mat_def mat_T_def times_scalar_def shape0_def
      reshape_flat_def Let_def upt_conv_Cons)

text \<open>
  C9 (as stated). The space constructed on two grid points with \<open>n_basis = 3\<close> has a basis
  of two columns, and a single signal of shape \<open>(2,)\<close> is projected to a flat vector of
  length 2, not of length \<open>n_basis = 3\<close>; a batch of shape \<open>(2, 1)\<close> raises \<open>ValueError\<close> in the
  reshape.
\<close>

theorem signal_coeffs_length_counterexample:
  "init svd_of_identity indicator_fn 1 [fixed_dist [- 1, 0]] 2 3 1 1 (0 :: nat) =
     (Inr (example_space 3), 1) \<and>
   n_basis (example_space 3) = 3 \<and>
   signal_coeffs (example_space 3) (Vec [1, 0]) = Inr (Vec [1, 0]) \<and>
   signal_coeffs (example_space 3) (Mat \<lparr>nrows = 2, ncols = 1, rows = [[1], [0]]\<rparr>) =
     Inl ValueError"
proof -
  have b: "basis (example_space 3) = \<lparr>nrows = 2, ncols = 2, rows = [[1, 0], [0, 1]]\<rparr>"
    by (simp add: example_space_def slice_columns_def slice_stop_def)
  have d: "dx (example_space 3) = 1" "n_basis (example_space 3) = 3"
    by (simp_all add: example_space_def)
  have v: "signal_coeffs (example_space 3) (Vec [1, 0]) = Inr (Vec [1, 0])"
    by (simp add: signal_coeffs_def b d dot_vec_mat_def times_scalar_def shape0_def
        column_def inner_def upt_conv_Cons Let_def)
  have m: "signal_coeffs (example_space 3) (Mat \<lparr>nrows = 2, ncols = 1, rows = [[1], [0]]\<rparr>) =
      Inl ValueError"
    by (simp add: signal_coeffs_def b d dot_mat_mat_def mat_T_def times_scalar_def shape0_def
        reshape_flat_def Let_def)
  from init_example[of 3 0] v m d(2) show ?thesis by simp
qed

text \<open>
  C9 (amended). For every Function_Space constructed with \<open>0 \<le> n_basis \<le> U.shape[1]\<close> (so
  that the basis has exactly \<open>n_basis\<close> columns), with \<open>n_points = U.shape[0]\<close> the number of
  rows of the basis: a single signal of shape \<open>(n_points,)\<close> gives the product
  \<open>signal . basis * dx\<close> as a flat vector of length \<open>n_basis\<close>, not a \<open>(1, n_basis)\<close> matrix. A
  batch of shape \<open>(n_points, m)\<close>, for any \<open>m \<ge> 0\<close>, has the product \<open>signal.T . basis * dx\<close> of
  shape \<open>(m, n_basis)\<close>, and the call returns this matrix itself unless its leading dimension
  \<open>m\<close> is 1, and exactly then its \<open>n_basis\<close> elements as a flat vector. No call raises.
\<close>

theorem signal_coeffs_shapes:
  assumes "init svd fn domain_dim dist_args n_functions nb d radius s = (Inr self, s')"
    and "0 \<le> nb" and "nb \<le> int (ncols (U self))"
  shows "(\<forall>v. length v = nrows (U self) \<longrightarrow>
            (\<exists>c. map_sum id (\<lambda>p. times_scalar (Vec p) (dx self))
                    (dot_vec_mat v (basis self)) = Inr (Vec c) \<and>
                 signal_coeffs self (Vec v) = Inr (Vec c) \<and> int (length c) = nb)) \<and>
         (\<forall>A. nrows A = nrows (U self) \<longrightarrow>
            (\<exists>C. map_sum id (\<lambda>P. times_scalar (Mat P) (dx self))
                    (dot_mat_mat (mat_T A) (basis self)) = Inr (Mat C) \<and>
                 nrows C = ncols A \<and> int (ncols C) = nb \<and> length (rows C) = ncols A \<and>
                 (\<forall>r\<in>set (rows C). int (length r) = nb) \<and>
                 signal_coeffs self (Mat A) =
                   (if nrows C = 1 then Inr (Vec (concat (rows C))) else Inr (Mat C)) \<and>
                 (nrows C = 1 \<longrightarrow> int (length (concat (rows C))) = nb)))"
proof -
  note b = init_basis[OF assms(1)]
  note sh = basis_shape[OF b(1) assms(2,3)]
  have nb: "n_basis self = int (ncols (basis self))"
    using b(2) sh(2) by simp
  show ?thesis
  proof (intro conjI allI impI)
    fix v :: "real list"
    assume "length v = nrows (U self)"
    then have "length v = nrows (basis self)" using sh(1) by simp
    from signal_coeffs_vector[OF this nb] sh(2)
    show "\<exists>c. map_sum id (\<lambda>p. times_scalar (Vec p) (dx self))
                    (dot_vec_mat v (basis self)) = Inr (Vec c) \<and>
                 signal_coeffs self (Vec v) = Inr (Vec c) \<and> int (length c) = nb"
      by auto
  next
    fix A :: mat
    assume "nrows A = nrows (U self)"
    then have "nrows A = nrows (basis self)" using sh(1) by simp
    from signal_coeffs_batch[OF this nb] obtain C where C:
      "map_sum id (\<lambda>P. times_scalar (Mat P) (dx self))
               (dot_mat_mat (mat_T A) (basis self)) = Inr (Mat C)"
      "nrows C = ncols A" "ncols C = ncols (basis self)" "length (rows C) = ncols A"
      "\<forall>r\<in>set (rows C). length r = ncols (basis self)"
      "signal_coeffs self (Mat A) =
             (if nrows C = 1 then Inr (Vec (concat (rows C))) else Inr (Mat C))"
      by blast
    have "length (concat (rows C)) = ncols (basis self)" if "nrows C = 1"
      using concat_singleton_rows[OF _ C(5)] that C(2,4) by simp
    with C sh(2)
    show "\<exists>C. map_sum id (\<lambda>P. times_scalar (Mat P) (dx self))
                    (dot_mat_mat (mat_T A) (basis self)) = Inr (Mat C) \<and>
                 nrows C = ncols A \<and> int (ncols C) = nb \<and> length (rows C) = ncols A \<and>
                 (\<forall>r\<in>set (rows C). int (length r) = nb) \<and>
                 signal_coeffs self (Mat A) =
                   (if nrows C = 1 then Inr (Vec (concat (rows C))) else Inr (Mat C)) \<and>
                 (nrows C = 1 \<longrightarrow> int (length (concat (rows C))) = nb)"
      by (intro exI[of _ C]) auto
  qed
qed

text \<open>
  The theorem on the space constructed on two grid points with \<open>n_basis = 1\<close>: a signal of
  shape \<open>(2,)\<close>, and batches of shapes \<open>(2, 2)\<close>, \<open>(2, 1)\<close> and \<open>(2, 0)\<close>; only the batch of one
  signal is squeezed.
\<close>

theorem signal_coeffs_shapes_witness:
  "(\<exists>c. signal_coeffs (example_space 1) (Vec [3, 4]) = Inr (Vec c) \<and> length c = 1) \<and>
   (\<exists>C. signal_coeffs (example_space 1)
           (Mat \<lparr>nrows = 2, ncols = 2, rows = [[3, 5], [4, 6]]\<rparr>) = Inr (Mat C) \<and>
         nrows C = 2 \<and> ncols C = 1) \<and>
   (\<exists>c. signal_coeffs (example_space 1)
           (Mat \<lparr>nrows = 2, ncols = 1, rows = [[3], [4]]\<rparr>) = Inr (Vec c) \<and> length c = 1) \<and>
   (\<exists>C. signal_coeffs (example_space 1)
           (Mat \<lparr>nrows = 2, ncols = 0, rows = [[], []]\<rparr>) = Inr (Mat C) \<and>
         nrows C = 0 \<and> ncols C = 1)"
proof -
  have u: "(0 :: int) \<le> 1" "1 \<le> int (ncols (U (example_space 1)))"
    "nrows (U (example_space 1)) = 2"
    by (simp_all add: example_space_def)
  note shapes = signal_coeffs_shapes[OF init_example[of 1 0] u(1) u(2), unfolded u(3)]
  note batch = shapes[THEN conjunct2, rule_format]
  from shapes[THEN conjunct1, rule_format, of "[3, 4]"]
  have a: "\<exists>c. signal_coeffs (example_space 1) (Vec [3, 4]) = Inr (Vec c) \<and> length c = 1"
    by auto
  from batch[of "\<lparr>nrows = 2, ncols = 2, rows = [[3, 5], [4, 6]]\<rparr>"]
  have b: "\<exists>C. signal_coeffs (example_space 1)
           (Mat \<lparr>nrows = 2, ncols = 2, rows = [[3, 5], [4, 6]]\<rparr>) = Inr (Mat C) \<and>
         nrows C = 2 \<and> ncols C = 1"
    by auto
  from batch[of "\<lparr>nrows = 2, ncols = 1, rows = [[3], [4]]\<rparr>"]
  have c: "\<exists>c. signal_coeffs (example_space 1)
           (Mat \<lparr>nrows = 2, ncols = 1, rows = [[3], [4]]\<rparr>) = Inr (Vec c) \<and> length c = 1"
    by auto
  from batch[of "\<lparr>nrows = 2, ncols = 0, rows = [[], []]\<rparr>"]
  have d: "\<exists>C. signal_coeffs (example_space 1)
           (Mat \<lparr>nrows = 2, ncols = 0, rows = [[], []]\<rparr>) = Inr (Mat C) \<and>
         nrows C = 0 \<and> ncols C = 1"
    by auto
  from a b c d show ?thesis by blast
qed

section \<open>Orthonormality of the basis and the round trip, in exact arithmetic\<close>






















end
